theory Spec2Isabelle
  imports Complex_Main "HOL-Library.Code_Target_Numeral"
begin

section \<open>Headless battle runner: the write side (\<open>pipeInputWithTeams\<close>)\<close>

text \<open>
  The model follows \<^verbatim>\<open>src/tools/headless-battle-runner.ts\<close> (the variant with team
  files, the first of the two copies in that file). A JavaScript string is modelled as a
  \<open>string\<close>, one \<open>char\<close> per UTF-16 code unit; the model therefore covers strings whose
  code units are below 256.
\<close>

subsection \<open>String primitives of the language\<close>

fun startsWith :: "string \<Rightarrow> string \<Rightarrow> bool" where
  \<comment> \<open>\<^verbatim>\<open>s.startsWith(p)\<close>: \<open>p\<close> is a prefix of \<open>s\<close>\<close>
  "startsWith s [] = True"
| "startsWith [] (p # ps) = False"
| "startsWith (c # cs) (p # ps) = (c = p \<and> startsWith cs ps)"

fun indexOf :: "string \<Rightarrow> char \<Rightarrow> nat option" where
  \<comment> \<open>\<^verbatim>\<open>s.indexOf(c)\<close> for a one-character needle; \<open>None\<close> stands for \<open>-1\<close>\<close>
  "indexOf [] c = None"
| "indexOf (x # xs) c = (if x = c then Some 0 else map_option Suc (indexOf xs c))"

fun split :: "char \<Rightarrow> string \<Rightarrow> string list" where
  \<comment> \<open>\<^verbatim>\<open>s.split(sep)\<close> for a one-character separator\<close>
  "split sep [] = [[]]"
| "split sep (c # cs) =
     (if c = sep then [] # split sep cs
      else (case split sep cs of [] \<Rightarrow> [[c]] | x # xs \<Rightarrow> (c # x) # xs))"

definition newline :: char where
  "newline = CHR 0x0A"

definition hexDigit :: "nat \<Rightarrow> char" where
  "hexDigit n = ''0123456789abcdef'' ! (n mod 16)"

definition jsonEscape :: "char \<Rightarrow> string" where
  \<comment> \<open>\<^verbatim>\<open>JSON.stringify\<close> on one code unit of a string (QuoteJSONString)\<close>
  "jsonEscape c =
     (if c = CHR 0x22 then [CHR 0x5C, CHR 0x22]
      else if c = CHR 0x5C then [CHR 0x5C, CHR 0x5C]
      else if c = CHR 0x08 then [CHR 0x5C, CHR ''b'']
      else if c = CHR 0x0C then [CHR 0x5C, CHR ''f'']
      else if c = CHR 0x0A then [CHR 0x5C, CHR ''n'']
      else if c = CHR 0x0D then [CHR 0x5C, CHR ''r'']
      else if c = CHR 0x09 then [CHR 0x5C, CHR ''t'']
      else if of_char c < (0x20 :: nat) then
        [CHR 0x5C, CHR ''u'', CHR ''0'', CHR ''0'',
         hexDigit (of_char c div 16), hexDigit (of_char c)]
      else [c])"

definition jsonString :: "string \<Rightarrow> string" where
  \<comment> \<open>\<^verbatim>\<open>JSON.stringify(s)\<close> for a string \<open>s\<close>\<close>
  "jsonString s = [CHR 0x22] @ concat (map jsonEscape s) @ [CHR 0x22]"

definition jsonTeam :: "string \<Rightarrow> string" where
  \<comment> \<open>\<^verbatim>\<open>JSON.stringify({team: t})\<close>\<close>
  "jsonTeam t = ''{'' @ jsonString ''team'' @ '':'' @ jsonString t @ ''}''"

subsection \<open>Slots, teams, coordinator state, writes\<close>

datatype PlayerSlot = P1 | P2

definition PLAYER_SLOTS :: "PlayerSlot list" where
  "PLAYER_SLOTS = [P1, P2]"

fun slotName :: "PlayerSlot \<Rightarrow> string" where
  "slotName P1 = ''p1''"
| "slotName P2 = ''p2''"

text \<open>\<^verbatim>\<open>Partial<Record<PlayerSlot, string>>\<close>: a slot has a team string or none.\<close>

type_synonym teams = "PlayerSlot \<Rightarrow> string option"

definition truthy :: "string option \<Rightarrow> bool" where
  \<comment> \<open>JavaScript truthiness of \<^verbatim>\<open>teams[slot]\<close>: \<^verbatim>\<open>undefined\<close> and \<^verbatim>\<open>''\<close> are falsy\<close>
  "truthy t = (case t of None \<Rightarrow> False | Some s \<Rightarrow> s \<noteq> [])"

text \<open>The closure variables \<^verbatim>\<open>teamHandled\<close> and \<^verbatim>\<open>pendingInjection\<close>.\<close>

record coord =
  teamHandled :: "PlayerSlot \<Rightarrow> bool"
  pendingInjection :: bool

text \<open>
  One call of \<^verbatim>\<open>stream.write\<close>, tagged with the call site: \<open>Forwarded line hadNewline\<close>
  is the write in \<^verbatim>\<open>handleLine\<close>, \<open>Synthetic slot team\<close> the one in \<^verbatim>\<open>injectTeams\<close>.
  \<open>written\<close> is the string passed to \<^verbatim>\<open>stream.write\<close>.
\<close>

datatype wr = Forwarded string bool | Synthetic PlayerSlot string

fun written :: "wr \<Rightarrow> string" where
  "written (Forwarded line hadNewline) = (if hadNewline then line @ [newline] else line)"
| "written (Synthetic slot team) =
     ''>player '' @ slotName slot @ '' '' @ jsonTeam team @ [newline]"

definition initialCoord :: "teams \<Rightarrow> coord" where
  "initialCoord teams =
     \<lparr>teamHandled = (\<lambda>_. False)(P1 := \<not> truthy (teams P1), P2 := \<not> truthy (teams P2)),
      pendingInjection = False\<rparr>"

subsection \<open>\<^verbatim>\<open>injectTeams\<close> and \<^verbatim>\<open>handleLine\<close>\<close>

definition injectSlot :: "teams \<Rightarrow> PlayerSlot \<Rightarrow> wr list \<times> coord \<Rightarrow> wr list \<times> coord" where
  \<comment> \<open>the body of the \<^verbatim>\<open>for (const slot of PLAYER_SLOTS)\<close> loop\<close>
  "injectSlot teams slot acc =
     (case acc of (ws, st) \<Rightarrow>
        if \<not> truthy (teams slot) \<or> teamHandled st slot then (ws, st)
        else (ws @ [Synthetic slot (the (teams slot))],
              st\<lparr>teamHandled := (teamHandled st)(slot := True)\<rparr>))"

definition injectTeams :: "teams \<Rightarrow> coord \<Rightarrow> wr list \<times> coord" where
  "injectTeams teams st = fold (injectSlot teams) PLAYER_SLOTS ([], st)"

definition handleLine :: "teams \<Rightarrow> string \<Rightarrow> bool \<Rightarrow> coord \<Rightarrow> wr list \<times> coord" where
  "handleLine teams line hadNewline st =
     (let st1 = (if startsWith line ''>start''
                 then st\<lparr>teamHandled := (teamHandled st)(P1 := \<not> truthy (teams P1),
                                                          P2 := \<not> truthy (teams P2)),
                         pendingInjection := True\<rparr>
                 else st);
          st2 = (if startsWith line ''>player p1 ''
                 then st1\<lparr>teamHandled := (teamHandled st1)(P1 := True)\<rparr> else st1);
          st3 = (if startsWith line ''>player p2 ''
                 then st2\<lparr>teamHandled := (teamHandled st2)(P2 := True)\<rparr> else st2)
      in ([Forwarded line hadNewline], st3))"

subsection \<open>The chunk loop\<close>

text \<open>
  The inner \<^verbatim>\<open>while (newlineIndex !== -1)\<close> loop: it returns the writes it made, the
  buffer left over and the coordinator state.
\<close>

function drainLines :: "teams \<Rightarrow> string \<Rightarrow> coord \<Rightarrow> wr list \<times> string \<times> coord" where
  "drainLines teams buffer st =
     (case indexOf buffer newline of
        None \<Rightarrow> ([], buffer, st)
      | Some newlineIndex \<Rightarrow>
          (case handleLine teams (take newlineIndex buffer) True st of
             (ws, st') \<Rightarrow>
               (case drainLines teams (drop (newlineIndex + 1) buffer) st' of
                  (ws', rest) \<Rightarrow> (ws @ ws', rest))))"
  by pat_completeness auto
termination
proof -
  have bound: "i < length s" if "indexOf s c = Some i" for s c i
    using that by (induction s arbitrary: i) (auto split: if_splits)
  show ?thesis
    by (relation "measure (\<lambda>(teams, buffer, st). length buffer)") (auto dest: bound)
qed

declare drainLines.simps [simp del]

text \<open>
  One iteration of \<^verbatim>\<open>for await (const chunk of input)\<close>: the writes of the iteration,
  the new buffer and the new state.
\<close>

definition feedChunk :: "teams \<Rightarrow> string \<Rightarrow> string \<times> coord \<Rightarrow> wr list \<times> string \<times> coord" where
  "feedChunk teams chunk bs =
     (case bs of (buffer, st) \<Rightarrow>
        (case drainLines teams (buffer @ chunk) st of
           (ws, buffer', st') \<Rightarrow>
             if pendingInjection st'
             then (case injectTeams teams st' of
                     (ws', st'') \<Rightarrow> (ws @ ws', buffer', st''\<lparr>pendingInjection := False\<rparr>))
             else (ws, buffer', st')))"

text \<open>What follows the loop when the input is exhausted, up to \<^verbatim>\<open>stream.writeEnd()\<close>.\<close>

definition atEnd :: "teams \<Rightarrow> string \<times> coord \<Rightarrow> wr list" where
  "atEnd teams bs =
     (case bs of (buffer, st) \<Rightarrow>
        (case (if buffer \<noteq> [] then handleLine teams buffer False st else ([], st)) of
           (ws, st') \<Rightarrow>
             if pendingInjection st' then ws @ fst (injectTeams teams st') else ws))"

text \<open>
  The writes of a run, grouped by the iteration that made them: one group per chunk, in
  order, and a last group for what is written after the loop.
\<close>

fun batchesFrom :: "teams \<Rightarrow> string list \<Rightarrow> string \<times> coord \<Rightarrow> wr list list" where
  "batchesFrom teams [] bs = [atEnd teams bs]"
| "batchesFrom teams (chunk # chunks) bs =
     (case feedChunk teams chunk bs of
        (ws, bs') \<Rightarrow> ws # batchesFrom teams chunks bs')"

definition batches :: "teams \<Rightarrow> string list \<Rightarrow> wr list list" where
  "batches teams chunks = batchesFrom teams chunks ([], initialCoord teams)"

text \<open>
  \<^verbatim>\<open>pipeInputWithTeams\<close> on an input that delivers \<open>chunks\<close> and then ends: every
  \<^verbatim>\<open>stream.write\<close> in order. \<^verbatim>\<open>stream.writeEnd()\<close> follows the last of them.
\<close>

definition pipeInputWithTeams :: "teams \<Rightarrow> string list \<Rightarrow> wr list" where
  "pipeInputWithTeams teams chunks = concat (batches teams chunks)"

section \<open>The read side (\<open>JsonLogFormatter\<close>, \<open>pipeJsonOutput\<close>)\<close>

subsection \<open>\<^verbatim>\<open>trim\<close> and \<^verbatim>\<open>Number\<close>\<close>

definition isWhiteSpace :: "char \<Rightarrow> bool" where
  \<comment> \<open>WhiteSpace and LineTerminator code units below 256: TAB, LF, VT, FF, CR, SP, NBSP\<close>
  "isWhiteSpace c = (c \<in> set [CHR 0x09, CHR 0x0A, CHR 0x0B, CHR 0x0C, CHR 0x0D, CHR 0x20, CHR 0xA0])"

definition trim :: "string \<Rightarrow> string" where
  \<comment> \<open>\<^verbatim>\<open>s.trim()\<close>\<close>
  "trim s = rev (dropWhile isWhiteSpace (rev (dropWhile isWhiteSpace s)))"

text \<open>
  A JavaScript number: a double. \<open>Finite r\<close> is the finite double of value \<open>r\<close>; every
  \<open>Finite r\<close> the model makes comes out of \<open>roundDouble\<close> below. The two zeros are one value
  here: they differ in nothing that \<^verbatim>\<open>format\<close> computes from them.
\<close>

datatype jsnum = Finite rat | NaN | PosInfinity | NegInfinity

definition isDigit :: "char \<Rightarrow> bool" where
  "isDigit c = (c \<in> set ''0123456789'')"

definition digitVal :: "char \<Rightarrow> nat" where
  "digitVal c = of_char c - of_char CHR ''0''"

definition hexVal :: "char \<Rightarrow> nat option" where
  "hexVal c =
     (if isDigit c then Some (digitVal c)
      else if c \<in> set ''abcdef'' then Some (of_char c - of_char CHR ''a'' + 10)
      else if c \<in> set ''ABCDEF'' then Some (of_char c - of_char CHR ''A'' + 10)
      else None)"

definition radixValue :: "nat \<Rightarrow> string \<Rightarrow> nat option" where
  \<comment> \<open>the value of a non-empty digit string in base 2, 8 or 16; \<open>None\<close> when it is not one\<close>
  "radixValue b ds =
     (if ds \<noteq> [] \<and> list_all (\<lambda>c. case hexVal c of None \<Rightarrow> False | Some v \<Rightarrow> v < b) ds
      then Some (foldl (\<lambda>a c. b * a + the (hexVal c)) 0 ds) else None)"

definition decimalValue :: "string \<Rightarrow> nat" where
  "decimalValue ds = foldl (\<lambda>a c. 10 * a + digitVal c) 0 ds"

definition pow10 :: "int \<Rightarrow> rat" where
  "pow10 e = (if 0 \<le> e then 10 ^ nat e else 1 / 10 ^ nat (- e))"

definition exponentPart :: "string \<Rightarrow> int option" where
  \<comment> \<open>ExponentPart, or nothing: the exponent; \<open>None\<close> when the rest is neither\<close>
  "exponentPart s =
     (case s of
        [] \<Rightarrow> Some 0
      | c # t \<Rightarrow>
          if c = CHR ''e'' \<or> c = CHR ''E'' then
            (case t of
               [] \<Rightarrow> None
             | d # u \<Rightarrow>
                 if d = CHR ''+'' then
                   (if u \<noteq> [] \<and> list_all isDigit u then Some (int (decimalValue u)) else None)
                 else if d = CHR ''-'' then
                   (if u \<noteq> [] \<and> list_all isDigit u then Some (- int (decimalValue u)) else None)
                 else
                   (if list_all isDigit t then Some (int (decimalValue t)) else None))
          else None)"

definition unsignedDecimal :: "string \<Rightarrow> rat option" where
  \<comment> \<open>StrUnsignedDecimalLiteral other than \<^verbatim>\<open>Infinity\<close>: its mathematical value\<close>
  "unsignedDecimal s =
     (let ip = takeWhile isDigit s;
          r = dropWhile isDigit s;
          fp = (case r of [] \<Rightarrow> [] | c # t \<Rightarrow> if c = CHR ''.'' then takeWhile isDigit t else []);
          r' = (case r of [] \<Rightarrow> [] | c # t \<Rightarrow> if c = CHR ''.'' then dropWhile isDigit t else r)
      in if ip = [] \<and> fp = [] then None
         else (case exponentPart r' of
                 None \<Rightarrow> None
               | Some e \<Rightarrow>
                   Some (of_nat (decimalValue (ip @ fp)) * pow10 (e - int (length fp)))))"

text \<open>
  Rounding to the nearest double, ties to even (IEEE 754 binary64): the exponent of a
  positive value, the spacing of the doubles around it (never below that of the subnormal
  numbers), and the nearest multiple of that spacing.
\<close>

definition pow2 :: "int \<Rightarrow> rat" where
  "pow2 e = (if 0 \<le> e then 2 ^ nat e else 1 / 2 ^ nat (- e))"

fun bitLength :: "nat \<Rightarrow> nat" where
  \<comment> \<open>the number of binary digits\<close>
  "bitLength n = (if n = 0 then 0 else Suc (bitLength (n div 2)))"

declare bitLength.simps [simp del]

definition floorLog2 :: "rat \<Rightarrow> int" where
  \<comment> \<open>for \<open>0 < a\<close>: the \<open>e\<close> with \<open>2 ^ e \<le> a < 2 ^ (e + 1)\<close>\<close>
  "floorLog2 a =
     (if 1 \<le> a then int (bitLength (nat \<lfloor>a\<rfloor>)) - 1
      else - int (bitLength (nat (\<lceil>1 / a\<rceil> - 1))))"

definition quantum :: "rat \<Rightarrow> rat" where
  "quantum a = pow2 (max (floorLog2 a) (- 1022) - 52)"

definition roundHalfEven :: "rat \<Rightarrow> int" where
  "roundHalfEven x =
     (if x - of_int \<lfloor>x\<rfloor> < 1 / 2 then \<lfloor>x\<rfloor>
      else if 1 / 2 < x - of_int \<lfloor>x\<rfloor> then \<lfloor>x\<rfloor> + 1
      else if even \<lfloor>x\<rfloor> then \<lfloor>x\<rfloor> else \<lfloor>x\<rfloor> + 1)"

definition nearest :: "rat \<Rightarrow> rat" where
  \<comment> \<open>for \<open>0 < a\<close>: the multiple of the spacing nearest to \<open>a\<close>\<close>
  "nearest a = of_int (roundHalfEven (a / quantum a)) * quantum a"

definition roundDouble :: "rat \<Rightarrow> jsnum" where
  \<comment> \<open>the Number value for a mathematical value\<close>
  "roundDouble r =
     (if r = 0 then Finite 0
      else if 2 ^ 1024 \<le> nearest \<bar>r\<bar> then (if 0 < r then PosInfinity else NegInfinity)
      else Finite (if 0 < r then nearest \<bar>r\<bar> else - nearest \<bar>r\<bar>))"

definition mulDouble :: "rat \<Rightarrow> rat \<Rightarrow> jsnum" where
  \<comment> \<open>\<^verbatim>\<open>a * b\<close> on two finite numbers: the exact product, rounded\<close>
  "mulDouble a b = roundDouble (a * b)"

definition strDecimal :: "string \<Rightarrow> jsnum" where
  \<comment> \<open>StrDecimalLiteral: an optional sign, then \<^verbatim>\<open>Infinity\<close> or an unsigned decimal literal\<close>
  "strDecimal s =
     (let neg = (s \<noteq> [] \<and> hd s = CHR ''-'');
          body = (if s \<noteq> [] \<and> (hd s = CHR ''+'' \<or> hd s = CHR ''-'') then tl s else s)
      in if body = ''Infinity'' then (if neg then NegInfinity else PosInfinity)
         else (case unsignedDecimal body of
                 None \<Rightarrow> NaN
               | Some v \<Rightarrow> roundDouble (if neg then - v else v)))"

definition Number :: "string \<Rightarrow> jsnum" where
  \<comment> \<open>\<^verbatim>\<open>Number(s)\<close> for a string \<open>s\<close> (StringToNumber)\<close>
  "Number s =
     (let t = trim s in
      if t = [] then Finite 0
      else if startsWith t ''0x'' \<or> startsWith t ''0X'' then
        (case radixValue 16 (drop 2 t) of None \<Rightarrow> NaN | Some v \<Rightarrow> roundDouble (of_nat v))
      else if startsWith t ''0o'' \<or> startsWith t ''0O'' then
        (case radixValue 8 (drop 2 t) of None \<Rightarrow> NaN | Some v \<Rightarrow> roundDouble (of_nat v))
      else if startsWith t ''0b'' \<or> startsWith t ''0B'' then
        (case radixValue 2 (drop 2 t) of None \<Rightarrow> NaN | Some v \<Rightarrow> roundDouble (of_nat v))
      else strDecimal t)"

definition finiteValue :: "jsnum \<Rightarrow> rat option" where
  \<comment> \<open>\<^verbatim>\<open>Number.isFinite(value) ? value : null\<close>\<close>
  "finiteValue n = (case n of Finite r \<Rightarrow> Some r | _ \<Rightarrow> None)"

subsection \<open>\<^verbatim>\<open>new Date(ms).toISOString()\<close>\<close>

datatype error = RangeError

definition digitChar :: "nat \<Rightarrow> char" where
  "digitChar n = ''0123456789'' ! (n mod 10)"

text \<open>The last two, three, four and six decimal digits of a number, with leading zeros.\<close>

definition pad2 :: "nat \<Rightarrow> string" where
  "pad2 k = [digitChar (k div 10), digitChar k]"

definition pad3 :: "nat \<Rightarrow> string" where
  "pad3 k = digitChar (k div 100) # pad2 k"

definition pad4 :: "nat \<Rightarrow> string" where
  "pad4 k = digitChar (k div 1000) # pad3 k"

definition pad6 :: "nat \<Rightarrow> string" where
  "pad6 k = digitChar (k div 100000) # digitChar (k div 10000) # pad4 k"

text \<open>
  Year, month and day of the proleptic Gregorian calendar for a day number counted from
  1970-01-01, computed by eras of 400 years (146097 days) that start on 1 March.
\<close>

definition era :: "int \<Rightarrow> int" where
  "era days = (days + 719468) div 146097"

definition dayOfEra :: "int \<Rightarrow> int" where
  "dayOfEra days = (days + 719468) mod 146097"

definition yearOfEra :: "int \<Rightarrow> int" where
  "yearOfEra days =
     (dayOfEra days - dayOfEra days div 1460 + dayOfEra days div 36524
        - dayOfEra days div 146096) div 365"

definition dayOfYear :: "int \<Rightarrow> int" where
  \<comment> \<open>counted from 1 March\<close>
  "dayOfYear days =
     dayOfEra days - (365 * yearOfEra days + yearOfEra days div 4 - yearOfEra days div 100)"

definition monthPart :: "int \<Rightarrow> int" where
  \<comment> \<open>0 for March up to 11 for February\<close>
  "monthPart days = (5 * dayOfYear days + 2) div 153"

definition civilDay :: "int \<Rightarrow> int" where
  "civilDay days = dayOfYear days - (153 * monthPart days + 2) div 5 + 1"

definition civilMonth :: "int \<Rightarrow> int" where
  "civilMonth days = (if monthPart days < 10 then monthPart days + 3 else monthPart days - 9)"

definition civilYear :: "int \<Rightarrow> int" where
  "civilYear days =
     yearOfEra days + era days * 400 + (if civilMonth days \<le> 2 then 1 else 0)"

definition yearString :: "int \<Rightarrow> string" where
  \<comment> \<open>four digits for the years 0 to 9999, otherwise a sign and six digits\<close>
  "yearString y =
     (if 0 \<le> y \<and> y \<le> 9999 then pad4 (nat y)
      else (if y < 0 then ''-'' else ''+'') @ pad6 (nat \<bar>y\<bar>))"

definition timeString :: "nat \<Rightarrow> string" where
  \<comment> \<open>\<^verbatim>\<open>HH:mm:ss.sss\<close> of the milliseconds within a day\<close>
  "timeString t =
     pad2 (t div 3600000) @ '':'' @ pad2 (t div 60000 mod 60) @ '':''
       @ pad2 (t div 1000 mod 60) @ ''.'' @ pad3 (t mod 1000)"

definition isoString :: "int \<Rightarrow> string" where
  \<comment> \<open>\<^verbatim>\<open>toISOString\<close> of a valid time value (milliseconds since the epoch)\<close>
  "isoString tv =
     yearString (civilYear (tv div 86400000))
       @ ''-'' @ pad2 (nat (civilMonth (tv div 86400000)))
       @ ''-'' @ pad2 (nat (civilDay (tv div 86400000)))
       @ ''T'' @ timeString (nat (tv mod 86400000)) @ ''Z''"

definition toInteger :: "rat \<Rightarrow> int" where
  \<comment> \<open>ToIntegerOrInfinity of a finite value: rounding towards zero\<close>
  "toInteger r = (if 0 \<le> r then \<lfloor>r\<rfloor> else \<lceil>r\<rceil>)"

definition dateToISOString :: "jsnum \<Rightarrow> error + string" where
  \<comment> \<open>\<^verbatim>\<open>new Date(ms).toISOString()\<close>: TimeClip gives an invalid date for a value that is not
      finite or is beyond \<open>8.64e15\<close>, and \<^verbatim>\<open>toISOString\<close> throws a RangeError on an invalid date\<close>
  "dateToISOString n =
     (case n of
        Finite ms \<Rightarrow>
          if \<bar>ms\<bar> > 8640000000000000 then Inl RangeError else Inr (isoString (toInteger ms))
      | _ \<Rightarrow> Inl RangeError)"

definition isoOfSeconds :: "rat \<Rightarrow> error + string" where
  \<comment> \<open>\<^verbatim>\<open>new Date(this.battleTimestamp * 1000).toISOString()\<close>\<close>
  "isoOfSeconds b = dateToISOString (mulDouble b 1000)"

subsection \<open>\<^verbatim>\<open>JsonLogFormatter\<close>\<close>

record formatter =
  currentTurn :: "rat option"
  battleTimestamp :: "rat option"

definition newFormatter :: formatter where
  "newFormatter = \<lparr>currentTurn = None, battleTimestamp = None\<rparr>"

text \<open>
  The \<^verbatim>\<open>timestamp\<close> of a record: the string \<^verbatim>\<open>toISOString\<close> made of the battle timestamp, or
  \<open>CurrentTime\<close> for \<^verbatim>\<open>new Date().toISOString()\<close>, the reading of the wall clock at the moment
  of the call, which is no function of the input.
\<close>

datatype stamp = IsoTime string | CurrentTime

record entry =
  message :: string
  timestamp :: stamp
  turn :: "rat option"
  player :: "string option"

definition extractTimestamp :: "string \<Rightarrow> rat option" where
  "extractTimestamp msg =
     (if \<not> startsWith msg ''|t:|'' then None
      else finiteValue (Number (drop 4 msg)))"

definition extractTurn :: "string \<Rightarrow> rat option" where
  "extractTurn msg =
     (if \<not> startsWith msg ''|'' then None
      else (let parts = split CHR ''|'' msg in
            if length parts < 3 then None
            else if parts ! 1 \<noteq> ''turn'' then None
            else finiteValue (Number (parts ! 2))))"

fun extractPlayer :: "string \<Rightarrow> string option" where
  \<comment> \<open>the first match of \<^verbatim>\<open>/p[1-4]/\<close>\<close>
  "extractPlayer (c # d # cs) =
     (if c = CHR ''p'' \<and> d \<in> set ''1234'' then Some [c, d] else extractPlayer (d # cs))"
| "extractPlayer cs = None"

definition format :: "string \<Rightarrow> formatter \<Rightarrow> (error + entry option) \<times> formatter" where
  \<comment> \<open>the result (\<open>Inl\<close>: thrown; \<open>Inr None\<close>: \<^verbatim>\<open>null\<close>) and the formatter afterwards\<close>
  "format msg f =
     (let trimmed = trim msg in
      if trimmed = [] \<or> trimmed = ''|'' then (Inr None, f)
      else
        (let f1 = (case extractTimestamp trimmed of
                     Some timestampSeconds \<Rightarrow> f\<lparr>battleTimestamp := Some timestampSeconds\<rparr>
                   | None \<Rightarrow> f);
             f2 = (case extractTurn trimmed of
                     Some t \<Rightarrow> f1\<lparr>currentTurn := Some t\<rparr>
                   | None \<Rightarrow> f1);
             player = extractPlayer trimmed
         in (case (case battleTimestamp f2 of
                     Some b \<Rightarrow> map_sum id IsoTime (isoOfSeconds b)
                   | None \<Rightarrow> Inr CurrentTime) of
               Inl e \<Rightarrow> (Inl e, f2)
             | Inr ts \<Rightarrow>
                 (Inr (Some \<lparr>message = trimmed, timestamp = ts,
                             turn = currentTurn f2, player = player\<rparr>), f2))))"

subsection \<open>\<^verbatim>\<open>pipeJsonOutput\<close>\<close>

text \<open>
  The \<^verbatim>\<open>for (const raw of lines)\<close> loop: the records written (each one as
  \<^verbatim>\<open>JSON.stringify(entry)\<close> and a newline; the serialisation is not modelled), the error
  thrown if any, and the formatter afterwards.
\<close>

fun writeLines :: "string list \<Rightarrow> formatter \<Rightarrow> entry list \<times> error option \<times> formatter" where
  "writeLines [] f = ([], None, f)"
| "writeLines (raw # raws) f =
     (if raw = [] then writeLines raws f
      else (case format raw f of
              (Inl e, f') \<Rightarrow> ([], Some e, f')
            | (Inr None, f') \<Rightarrow> writeLines raws f'
            | (Inr (Some en), f') \<Rightarrow>
                (case writeLines raws f' of (ens, r) \<Rightarrow> (en # ens, r))))"

text \<open>The \<^verbatim>\<open>for await (const chunk of stream)\<close> loop; \<^verbatim>\<open>writer.writeEnd()\<close> follows it.\<close>

fun writeChunks :: "string list \<Rightarrow> formatter \<Rightarrow> entry list \<times> error option" where
  "writeChunks [] f = ([], None)"
| "writeChunks (chunk # chunks) f =
     (case writeLines (split newline chunk) f of
        (ens, Some e, f') \<Rightarrow> (ens, Some e)
      | (ens, None, f') \<Rightarrow>
          (case writeChunks chunks f' of (ens', r) \<Rightarrow> (ens @ ens', r)))"

definition pipeJsonOutput :: "string list \<Rightarrow> entry list \<times> error option" where
  "pipeJsonOutput chunks = writeChunks chunks newFormatter"

section \<open>The entry point (\<open>main\<close>)\<close>

text \<open>
  \<^verbatim>\<open>main\<close> is modelled by the sequence of its effects on the outside, up to the point where it
  returns or the process exits. An option value that the source treats as \<^verbatim>\<open>unknown\<close> is an
  \<open>optval\<close>; the others have the type that \<^verbatim>\<open>CLIOptions\<close> gives them.
\<close>

datatype optval = Undefined | Str string | Bool bool

datatype LogFormat = Text | Json

datatype ReplayOption = ReplayFalse | ReplayTrue | ReplaySpectator

record CLIValues =
  opt_debug :: "bool option"
  opt_no_catch :: "bool option"
  opt_keep_alive :: "bool option"
  opt_replay :: optval
  opt_log_format :: optval
  opt_seed :: optval
  opt_log_file :: "string option"
  opt_p1_team_file :: "string option"
  opt_p2_team_file :: "string option"
  opt_interactive_stdin :: "bool option"

text \<open>
  What \<^verbatim>\<open>main\<close> calls outside this file: the PRNG (a starting seed, or the message of the
  error thrown), the file system (the contents, or the message of the error thrown) and
  the team parser and packer (\<open>None\<close> for \<^verbatim>\<open>null\<close>; a team set is kept as a string).
\<close>

record env =
  newPRNG :: "string \<Rightarrow> string + string"
  generateSeed :: string
  readFileSync :: "string \<Rightarrow> string + string"
  teamsImport :: "string \<Rightarrow> string list option"
  teamsPack :: "string list \<Rightarrow> string"

datatype event =
    IncludeFormats
  | ConsoleError string
  | Exit nat
  | CreateWriteStream string
  | Stdout
  | ReadFileSync string
  | NewBattleStream bool bool bool ReplayOption "string option"
  | PipeStdinToStream
  | PipeInputWithTeams "string option" "string option"
  | PipeJsonOutput
  | PipeToOutput

text \<open>
  A step of \<^verbatim>\<open>main\<close>: the events it causes and its value, \<open>None\<close> when it has ended the
  process.
\<close>

type_synonym 'a step = "event list \<times> 'a option"

definition fatal :: "string list \<Rightarrow> 'a step" where
  \<comment> \<open>\<^verbatim>\<open>console.error\<close> for each message, then \<^verbatim>\<open>process.exit(1)\<close>\<close>
  "fatal msgs = (map ConsoleError msgs @ [Exit 1], None)"

definition andThen :: "'a step \<Rightarrow> ('a \<Rightarrow> 'b step) \<Rightarrow> 'b step" where
  "andThen m k =
     (case m of
        (es, None) \<Rightarrow> (es, None)
      | (es, Some a) \<Rightarrow> (case k a of (es', r) \<Rightarrow> (es @ es', r)))"

definition lowerChar :: "char \<Rightarrow> char" where
  \<comment> \<open>lower case of a code unit below 256: A to Z, and 0xC0 to 0xDE without 0xD7\<close>
  "lowerChar c =
     (let n = (of_char c :: nat) in
      if (65 \<le> n \<and> n \<le> 90) \<or> (192 \<le> n \<and> n \<le> 222 \<and> n \<noteq> 215) then char_of (n + 32) else c)"

definition toLowerCase :: "string \<Rightarrow> string" where
  "toLowerCase s = map lowerChar s"

definition LOG_FORMATS :: "string list" where
  "LOG_FORMATS = [''text'', ''json'']"

definition parseLogFormat :: "optval \<Rightarrow> LogFormat step" where
  "parseLogFormat v =
     (case v of
        Str s \<Rightarrow>
          (let normalized = toLowerCase s in
           if normalized \<in> set LOG_FORMATS
           then ([], Some (if normalized = ''json'' then Json else Text))
           else fatal [''Unknown log format '' @ [CHR 0x22] @ s @ [CHR 0x22]
                         @ ''. Supported formats: text, json.''])
      | _ \<Rightarrow> ([], Some Text))"

definition parseReplayOption :: "optval \<Rightarrow> ReplayOption option" where
  \<comment> \<open>\<open>None\<close> for \<^verbatim>\<open>undefined\<close>\<close>
  "parseReplayOption v =
     (case v of
        Undefined \<Rightarrow> None
      | Str s \<Rightarrow>
          if s = [] then Some ReplayTrue
          else if s = ''spectator'' then Some ReplaySpectator
          else Some ReplayTrue
      | Bool b \<Rightarrow> Some (if b then ReplayTrue else ReplayFalse))"

definition parseSeed :: "env \<Rightarrow> optval \<Rightarrow> string option step" where
  \<comment> \<open>the value is \<open>None\<close> for \<^verbatim>\<open>null\<close>\<close>
  "parseSeed E v =
     (case v of
        Undefined \<Rightarrow> ([], Some None)
      | Bool b \<Rightarrow> fatal [''Seed must be provided as a string.'']
      | Str s \<Rightarrow>
          (let trimmed = trim s in
           if trimmed = [] then fatal [''Seed cannot be an empty string.'']
           else if toLowerCase trimmed = ''random'' then ([], Some (Some (generateSeed E)))
           else (case newPRNG E trimmed of
                   Inr startingSeed \<Rightarrow> ([], Some (Some startingSeed))
                 | Inl msg \<Rightarrow>
                     fatal [''Invalid seed '' @ [CHR 0x22] @ s @ [CHR 0x22] @ ''.'', msg])))"

definition openLogFile :: "string \<Rightarrow> unit step" where
  "openLogFile path =
     (if path = [] then fatal [''Log file path cannot be empty.'']
      else ([CreateWriteStream path], Some ()))"

fun slotUpper :: "PlayerSlot \<Rightarrow> string" where
  \<comment> \<open>\<^verbatim>\<open>slot.toUpperCase()\<close>\<close>
  "slotUpper P1 = ''P1''"
| "slotUpper P2 = ''P2''"

definition loadTeamFromFile :: "env \<Rightarrow> string \<Rightarrow> PlayerSlot \<Rightarrow> string step" where
  "loadTeamFromFile E path slot =
     (let trimmed = trim path in
      if trimmed = [] then
        fatal [''Team file path for '' @ slotUpper slot @ '' cannot be empty.'']
      else
        andThen ([ReadFileSync trimmed], Some ()) (\<lambda>_.
          (case readFileSync E trimmed of
             Inl msg \<Rightarrow>
               fatal [''Failed to read team file for '' @ slotUpper slot @ '' at '' @ trimmed @ ''.'',
                      msg]
           | Inr contents \<Rightarrow>
               (case teamsImport E contents of
                  None \<Rightarrow> fatal [''Team file for '' @ slotUpper slot @ '' is empty or invalid.'']
                | Some imported \<Rightarrow>
                    if imported = [] then
                      fatal [''Team file for '' @ slotUpper slot @ '' is empty or invalid.'']
                    else
                      (let packed = teamsPack E imported in
                       if packed = [] then
                         fatal [''Failed to serialize team file for '' @ slotUpper slot @ ''.'']
                       else ([], Some packed))))))"

definition teamOption :: "CLIValues \<Rightarrow> PlayerSlot \<Rightarrow> string option" where
  \<comment> \<open>\<^verbatim>\<open>values[`${slot}-team-file`]\<close>\<close>
  "teamOption v slot = (case slot of P1 \<Rightarrow> opt_p1_team_file v | P2 \<Rightarrow> opt_p2_team_file v)"

definition loadSlot :: "env \<Rightarrow> CLIValues \<Rightarrow> PlayerSlot \<Rightarrow> teams \<Rightarrow> teams step" where
  \<comment> \<open>the body of the loop over \<^verbatim>\<open>PLAYER_SLOTS\<close> in \<^verbatim>\<open>main\<close>\<close>
  "loadSlot E v slot teams =
     (if truthy (teamOption v slot)
      then andThen (loadTeamFromFile E (the (teamOption v slot)) slot)
             (\<lambda>packed. ([], Some (teams(slot \<mapsto> packed))))
      else ([], Some teams))"

definition loadTeams :: "env \<Rightarrow> CLIValues \<Rightarrow> teams step" where
  "loadTeams E v =
     andThen (loadSlot E v P1 Map.empty) (\<lambda>teams. loadSlot E v P2 teams)"

definition isTrue :: "bool option \<Rightarrow> bool" where
  \<comment> \<open>\<^verbatim>\<open>!!value\<close>\<close>
  "isTrue b = (b = Some True)"

definition startSession ::
  "CLIValues \<Rightarrow> LogFormat \<Rightarrow> ReplayOption option \<Rightarrow> string option \<Rightarrow> bool \<Rightarrow> teams \<Rightarrow> event list" where
  \<comment> \<open>\<^verbatim>\<open>main\<close> from \<^verbatim>\<open>new BattleStream\<close> on\<close>
  "startSession v logFormat replay seed interactive teams =
     [NewBattleStream (isTrue (opt_debug v)) (isTrue (opt_no_catch v)) (isTrue (opt_keep_alive v))
        (case replay of None \<Rightarrow> ReplayFalse | Some r \<Rightarrow> r) seed]
     @ [if interactive then PipeStdinToStream else PipeInputWithTeams (teams P1) (teams P2)]
     @ [if logFormat = Json then PipeJsonOutput else PipeToOutput]"

definition openOutput :: "CLIValues \<Rightarrow> unit step" where
  \<comment> \<open>\<^verbatim>\<open>logFile ? new Streams.WriteStream({nodeStream: openLogFile(logFile)}) : Streams.stdout()\<close>\<close>
  "openOutput v =
     (if truthy (opt_log_file v) then openLogFile (the (opt_log_file v)) else ([Stdout], Some ()))"

definition main :: "env \<Rightarrow> CLIValues \<Rightarrow> event list" where
  "main E v =
     IncludeFormats #
     fst (andThen (parseLogFormat (opt_log_format v)) (\<lambda>logFormat.
          andThen (parseSeed E (opt_seed v)) (\<lambda>seed.
          andThen (openOutput v) (\<lambda>_.
          andThen (loadTeams E v) (\<lambda>teams.
            if isTrue (opt_interactive_stdin v) \<and> (truthy (teams P1) \<or> truthy (teams P2))
            then fatal [''Team file options cannot be combined with --interactive-stdin.'']
            else (startSession v logFormat (parseReplayOption (opt_replay v)) seed
                    (isTrue (opt_interactive_stdin v)) teams, Some ()))))))"

section \<open>Notions used to state the properties\<close>

text \<open>
  The (line, hadNewline) pairs that \<^verbatim>\<open>handleLine\<close> was called with, read off the writes, and
  the test for a write made by \<^verbatim>\<open>injectTeams\<close>.
\<close>

fun linePairs :: "wr list \<Rightarrow> (string \<times> bool) list" where
  "linePairs [] = []"
| "linePairs (Forwarded line hadNewline # ws) = (line, hadNewline) # linePairs ws"
| "linePairs (Synthetic slot team # ws) = linePairs ws"

fun isSynthetic :: "wr \<Rightarrow> bool" where
  "isSynthetic (Synthetic slot team) = True"
| "isSynthetic (Forwarded line hadNewline) = False"

fun isMarkerWrite :: "wr \<Rightarrow> bool" where
  "isMarkerWrite (Forwarded line hadNewline) = startsWith line ''>start''"
| "isMarkerWrite (Synthetic slot team) = False"

text \<open>
  The lines of a text: the segments that end in a newline, and the rest after the last
  newline when it is not empty.
\<close>

definition textLines :: "string \<Rightarrow> string list" where
  "textLines s =
     butlast (split newline s)
       @ (if last (split newline s) = [] then [] else [last (split newline s)])"

definition isMarker :: "string \<Rightarrow> bool" where
  "isMarker line = startsWith line ''>start''"

definition isPlayerLine :: "PlayerSlot \<Rightarrow> string \<Rightarrow> bool" where
  "isPlayerLine slot line = startsWith line (''>player '' @ slotName slot @ '' '')"

text \<open>The lines that follow the last session-start marker of a list of lines.\<close>

definition afterLastMarker :: "string list \<Rightarrow> string list" where
  "afterLastMarker ls = rev (takeWhile (\<lambda>l. \<not> isMarker l) (rev ls))"

text \<open>
  What an iteration that handled the lines \<open>ls\<close> injects at its end: nothing without a
  marker among them; otherwise one command for each slot that has a team and no
  \<^verbatim>\<open>>player <slot> \<close> line after the last marker.
\<close>

definition dueCommands :: "teams \<Rightarrow> string list \<Rightarrow> wr list" where
  "dueCommands teams ls =
     (if \<exists>l\<in>set ls. isMarker l
      then map (\<lambda>slot. Synthetic slot (the (teams slot)))
             (filter (\<lambda>slot. truthy (teams slot)
                        \<and> \<not> (\<exists>l\<in>set (afterLastMarker ls). isPlayerLine slot l))
                PLAYER_SLOTS)
      else [])"

text \<open>The coordinator state after \<^verbatim>\<open>handleLine\<close>.\<close>

definition lineState :: "teams \<Rightarrow> coord \<Rightarrow> string \<Rightarrow> coord" where
  "lineState teams st line = snd (handleLine teams line True st)"

text \<open>
  The lines each iteration hands to \<^verbatim>\<open>handleLine\<close>, computed from the chunks alone: per
  chunk the lines completed by it, and at the end the unterminated rest.
\<close>

fun lineBatches :: "string list \<Rightarrow> string \<Rightarrow> (string \<times> bool) list list" where
  "lineBatches [] buffer = [if buffer \<noteq> [] then [(buffer, False)] else []]"
| "lineBatches (chunk # chunks) buffer =
     map (\<lambda>l. (l, True)) (butlast (split newline (buffer @ chunk)))
       # lineBatches chunks (last (split newline (buffer @ chunk)))"

text \<open>Teams for both slots, used in the examples.\<close>

definition exampleTeams :: teams where
  "exampleTeams slot = (case slot of P1 \<Rightarrow> Some ''team-a'' | P2 \<Rightarrow> Some ''team-b'')"

text \<open>
  The lines completed by the chunk at position \<open>i\<close>, read off the input alone: the lines
  terminated in the text up to and including that chunk, without those already terminated in
  the text before it.
\<close>

definition completedLines :: "string list \<Rightarrow> nat \<Rightarrow> string list" where
  "completedLines chunks i =
     drop (length (butlast (split newline (concat (take i chunks)))))
       (butlast (split newline (concat (take (Suc i) chunks))))"

subsection \<open>Notions for the read side\<close>

text \<open>
  The states a formatter can be in when \<^verbatim>\<open>format\<close> is called: the new one, and the state
  after a call that returned. After a call that threw, \<^verbatim>\<open>pipeJsonOutput\<close> ends and the
  formatter, which is local to it, is never used again.
\<close>

inductive reachable :: "formatter \<Rightarrow> bool" where
  fresh: "reachable newFormatter"
| step: "reachable f \<Longrightarrow> format msg f = (Inr r, f') \<Longrightarrow> reachable f'"

text \<open>A match of \<^verbatim>\<open>/p[1-4]/\<close> starts at position \<open>i\<close> of \<open>s\<close>.\<close>

definition slotTokenAt :: "string \<Rightarrow> nat \<Rightarrow> bool" where
  "slotTokenAt s i = (Suc i < length s \<and> s ! i = CHR ''p'' \<and> s ! Suc i \<in> set ''1234'')"

text \<open>
  The three parts of \<^verbatim>\<open>format\<close>: the test for a line that gives no record, the two updates
  of the state, and the timestamp made from a state.
\<close>

definition discarded :: "string \<Rightarrow> bool" where
  "discarded msg = (trim msg = [] \<or> trim msg = ''|'')"

definition updated :: "string \<Rightarrow> formatter \<Rightarrow> formatter" where
  "updated t f =
     \<lparr>currentTurn = (case extractTurn t of Some n \<Rightarrow> Some n | None \<Rightarrow> currentTurn f),
      battleTimestamp = (case extractTimestamp t of Some b \<Rightarrow> Some b | None \<Rightarrow> battleTimestamp f)\<rparr>"

definition stampOf :: "formatter \<Rightarrow> error + stamp" where
  "stampOf f =
     (case battleTimestamp f of
        Some b \<Rightarrow> map_sum id IsoTime (isoOfSeconds b)
      | None \<Rightarrow> Inr CurrentTime)"

subsection \<open>Notions for the entry point\<close>

text \<open>The events from \<^verbatim>\<open>new BattleStream\<close> on: the session.\<close>

fun isSessionEvent :: "event \<Rightarrow> bool" where
  "isSessionEvent (NewBattleStream d n k r s) = True"
| "isSessionEvent PipeStdinToStream = True"
| "isSessionEvent (PipeInputWithTeams a b) = True"
| "isSessionEvent PipeJsonOutput = True"
| "isSessionEvent PipeToOutput = True"
| "isSessionEvent e = False"

text \<open>
  A step that starts no session and, if it ends the process, ends it with
  \<^verbatim>\<open>process.exit(1)\<close>; and a step that does end it so.
\<close>

definition okStep :: "'a step \<Rightarrow> bool" where
  "okStep m = (filter isSessionEvent (fst m) = []
                \<and> (snd m = None \<longrightarrow> fst m \<noteq> [] \<and> last (fst m) = Exit 1))"

definition fatalStep :: "'a step \<Rightarrow> bool" where
  "fatalStep m = (snd m = None \<and> filter isSessionEvent (fst m) = []
                   \<and> fst m \<noteq> [] \<and> last (fst m) = Exit 1)"

text \<open>
  An environment and option values for the examples: only the file \<^verbatim>\<open>a.txt\<close> can be read,
  every seed but \<^verbatim>\<open>bad\<close> is accepted, and nothing but the default log format is given.
\<close>

definition exampleEnv :: env where
  "exampleEnv = \<lparr>newPRNG = (\<lambda>s. if s = ''bad'' then Inl ''not a seed'' else Inr s),
     generateSeed = ''sodium,00'',
     readFileSync = (\<lambda>p. if p = ''a.txt'' then Inr ''Pikachu'' else Inl ''ENOENT''),
     teamsImport = (\<lambda>c. Some [c]), teamsPack = concat\<rparr>"

definition exampleValues :: CLIValues where
  "exampleValues = \<lparr>opt_debug = Some False, opt_no_catch = Some False, opt_keep_alive = Some False,
     opt_replay = Undefined, opt_log_format = Str ''text'', opt_seed = Undefined,
     opt_log_file = None, opt_p1_team_file = None, opt_p2_team_file = None,
     opt_interactive_stdin = Some False\<rparr>"

section \<open>Lemmas about the write side\<close>

lemma split_ne [simp]: "split sep s \<noteq> []"
  by (induction s) (auto split: list.splits)

lemma indexOf_None_split: "indexOf s c = None \<Longrightarrow> split c s = [s]"
  by (induction s) (auto split: if_splits list.splits)

lemma indexOf_Some_split:
  "indexOf s c = Some i \<Longrightarrow> split c s = take i s # split c (drop (Suc i) s)"
  by (induction s arbitrary: i) (auto split: if_splits list.splits)

lemma split_join: "concat (map (\<lambda>l. l @ [c]) (butlast (split c s))) @ last (split c s) = s"
  by (induction s) (auto split: list.splits)

lemma split_no_sep: "l \<in> set (split c s) \<Longrightarrow> c \<notin> set l"
  by (induction s arbitrary: l) (auto split: list.splits if_splits)

lemma last_split_no_sep: "c \<notin> set (last (split c s))"
  by (rule split_no_sep [of _ c s]) simp

lemma split_append:
  "split c (s @ t) = butlast (split c s) @ split c (last (split c s) @ t)"
  by (induction s) (auto split: list.splits)

lemma split_last_idem: "c \<notin> set s \<Longrightarrow> split c s = [s]"
  by (induction s) (auto split: list.splits)

lemma handleLine_fst: "fst (handleLine teams line e st) = [Forwarded line e]"
  by (simp add: handleLine_def Let_def)

lemma handleLine_snd: "snd (handleLine teams line e st) = lineState teams st line"
  by (simp add: handleLine_def Let_def lineState_def)

lemma handleLine_eq: "handleLine teams line e st = ([Forwarded line e], lineState teams st line)"
  by (metis handleLine_fst handleLine_snd prod.collapse)

lemma drainLines_eq:
  "drainLines teams buffer st =
     (map (\<lambda>l. Forwarded l True) (butlast (split newline buffer)),
      last (split newline buffer),
      foldl (lineState teams) st (butlast (split newline buffer)))"
proof (induction teams buffer st rule: drainLines.induct)
  case (1 teams buffer st)
  show ?case
  proof (cases "indexOf buffer newline")
    case None
    then show ?thesis
      by (subst drainLines.simps) (simp add: indexOf_None_split)
  next
    case (Some i)
    note IH = "1.IH"[OF Some handleLine_eq [symmetric]]
    show ?thesis
      using IH by (subst drainLines.simps) (simp add: Some indexOf_Some_split handleLine_eq)
  qed
qed

lemma startsWith_iff: "startsWith s p \<longleftrightarrow> (\<exists>r. s = p @ r)"
  by (induction s p rule: startsWith.induct) auto

lemma marker_not_player:
  assumes "isMarker l"
  shows "\<not> isPlayerLine slot l"
proof
  assume p: "isPlayerLine slot l"
  obtain r where r: "l = ''>start'' @ r"
    using assms by (auto simp only: isMarker_def startsWith_iff)
  obtain r' where "l = (''>player '' @ slotName slot @ '' '') @ r'"
    using p by (auto simp only: isPlayerLine_def startsWith_iff)
  with r show False
    by simp
qed

lemma lineState_pending:
  "pendingInjection (lineState teams st l) = (pendingInjection st \<or> isMarker l)"
  by (simp add: lineState_def handleLine_def Let_def isMarker_def)

lemma lineState_handled:
  "teamHandled (lineState teams st l) slot =
     ((if isMarker l then \<not> truthy (teams slot) else teamHandled st slot) \<or> isPlayerLine slot l)"
  by (cases slot) (simp_all add: lineState_def handleLine_def Let_def isMarker_def isPlayerLine_def)

lemma foldl_pending:
  "pendingInjection (foldl (lineState teams) st ls) = (pendingInjection st \<or> (\<exists>l\<in>set ls. isMarker l))"
  by (induction ls rule: rev_induct) (auto simp: lineState_pending)

lemma afterLastMarker_snoc:
  "afterLastMarker (ls @ [l]) = (if isMarker l then [] else afterLastMarker ls @ [l])"
  by (simp add: afterLastMarker_def)

lemma afterLastMarker_none:
  "\<not> (\<exists>l\<in>set ls. isMarker l) \<Longrightarrow> afterLastMarker ls = ls"
  by (simp add: afterLastMarker_def takeWhile_eq_all_conv [THEN iffD2])

lemma dueCommands_Nil [simp]: "dueCommands teams [] = []"
  by (simp add: dueCommands_def)

lemma foldl_handled:
  "teamHandled (foldl (lineState teams) st ls) slot =
     (if \<exists>l\<in>set ls. isMarker l
      then \<not> truthy (teams slot) \<or> (\<exists>l\<in>set (afterLastMarker ls). isPlayerLine slot l)
      else teamHandled st slot \<or> (\<exists>l\<in>set ls. isPlayerLine slot l))"
proof (induction ls rule: rev_induct)
  case Nil
  then show ?case by simp
next
  case (snoc l ls)
  show ?case
  proof (cases "isMarker l")
    case True
    then show ?thesis
      by (simp add: lineState_handled afterLastMarker_snoc marker_not_player)
  next
    case False
    then show ?thesis
      using snoc.IH
      by (auto simp: lineState_handled afterLastMarker_snoc afterLastMarker_none)
  qed
qed

lemma injectTeams_fst:
  "fst (injectTeams teams st) =
     map (\<lambda>slot. Synthetic slot (the (teams slot)))
       (filter (\<lambda>slot. truthy (teams slot) \<and> \<not> teamHandled st slot) PLAYER_SLOTS)"
  by (simp add: injectTeams_def injectSlot_def PLAYER_SLOTS_def)

lemma injectTeams_pending:
  "pendingInjection (snd (injectTeams teams st)) = pendingInjection st"
  by (simp add: injectTeams_def injectSlot_def PLAYER_SLOTS_def)

lemma due_after_lines:
  assumes "\<exists>l\<in>set ls. isMarker l"
  shows "fst (injectTeams teams (foldl (lineState teams) st ls)) = dueCommands teams ls"
proof -
  have "(\<lambda>slot. truthy (teams slot) \<and> \<not> teamHandled (foldl (lineState teams) st ls) slot) =
        (\<lambda>slot. truthy (teams slot) \<and> \<not> (\<exists>l\<in>set (afterLastMarker ls). isPlayerLine slot l))"
    using assms by (auto simp: foldl_handled fun_eq_iff)
  then show ?thesis
    using assms by (simp add: injectTeams_fst dueCommands_def)
qed

lemma feedChunk_unfold:
  "feedChunk teams chunk (buffer, st) =
     (let ls = butlast (split newline (buffer @ chunk));
          st' = foldl (lineState teams) st ls
      in (map (\<lambda>l. Forwarded l True) ls
            @ (if pendingInjection st' then fst (injectTeams teams st') else []),
          last (split newline (buffer @ chunk)),
          (if pendingInjection st'
           then (snd (injectTeams teams st'))\<lparr>pendingInjection := False\<rparr> else st')))"
  by (simp add: feedChunk_def drainLines_eq Let_def split_beta)

lemma feedChunk_writes:
  assumes "\<not> pendingInjection st"
  shows "fst (feedChunk teams chunk (buffer, st)) =
           map (\<lambda>l. Forwarded l True) (butlast (split newline (buffer @ chunk)))
             @ dueCommands teams (butlast (split newline (buffer @ chunk)))"
proof (cases "\<exists>l\<in>set (butlast (split newline (buffer @ chunk))). isMarker l")
  case True
  then show ?thesis
    by (simp add: feedChunk_unfold Let_def foldl_pending due_after_lines)
next
  case False
  then have "dueCommands teams (butlast (split newline (buffer @ chunk))) = []"
    by (simp add: dueCommands_def)
  then show ?thesis
    using False assms by (simp add: feedChunk_unfold Let_def foldl_pending)
qed

lemma feedChunk_buffer:
  "fst (snd (feedChunk teams chunk (buffer, st))) = last (split newline (buffer @ chunk))"
  by (simp add: feedChunk_unfold Let_def)

lemma feedChunk_pending:
  "\<not> pendingInjection st \<Longrightarrow> \<not> pendingInjection (snd (snd (feedChunk teams chunk (buffer, st))))"
  by (simp add: feedChunk_unfold Let_def foldl_pending)

lemma atEnd_eq:
  assumes "\<not> pendingInjection st"
  shows "atEnd teams (buffer, st) =
           (if buffer \<noteq> [] then Forwarded buffer False # dueCommands teams [buffer] else [])"
proof (cases "buffer = []")
  case True
  then show ?thesis
    using assms by (simp add: atEnd_def)
next
  case False
  note ne = False
  show ?thesis
  proof (cases "isMarker buffer")
    case True
    have "fst (injectTeams teams (foldl (lineState teams) st [buffer])) = dueCommands teams [buffer]"
      by (rule due_after_lines) (simp add: True)
    then show ?thesis
      using True ne by (simp add: atEnd_def handleLine_eq lineState_pending)
  next
    case False
    then have "dueCommands teams [buffer] = []"
      by (simp add: dueCommands_def)
    then show ?thesis
      using False ne assms by (simp add: atEnd_def handleLine_eq lineState_pending)
  qed
qed

lemma batchesFrom_Cons:
  "batchesFrom teams (chunk # chunks) bs =
     fst (feedChunk teams chunk bs) # batchesFrom teams chunks (snd (feedChunk teams chunk bs))"
  by (simp add: split_beta)

lemma batchesFrom_eq:
  "\<not> pendingInjection st \<Longrightarrow>
   batchesFrom teams chunks (buffer, st) =
     map (\<lambda>ps. map (case_prod Forwarded) ps @ dueCommands teams (map fst ps))
       (lineBatches chunks buffer)"
proof (induction chunks arbitrary: buffer st)
  case Nil
  then show ?case
    by (simp add: atEnd_eq)
next
  case (Cons chunk chunks)
  let ?r = "feedChunk teams chunk (buffer, st)"
  let ?b = "last (split newline (buffer @ chunk))"
  have r: "snd ?r = (?b, snd (snd ?r))"
    using feedChunk_buffer [of teams chunk buffer st] by (metis prod.collapse)
  have "batchesFrom teams chunks (?b, snd (snd ?r)) =
          map (\<lambda>ps. map (case_prod Forwarded) ps @ dueCommands teams (map fst ps))
            (lineBatches chunks ?b)"
    by (rule Cons.IH) (rule feedChunk_pending [OF Cons.prems])
  then have "batchesFrom teams chunks (snd ?r) =
          map (\<lambda>ps. map (case_prod Forwarded) ps @ dueCommands teams (map fst ps))
            (lineBatches chunks ?b)"
    using r by simp
  then show ?case
    unfolding batchesFrom_Cons
    by (simp add: feedChunk_writes [OF Cons.prems] o_def)
qed

lemma batches_eq:
  "batches teams chunks =
     map (\<lambda>ps. map (case_prod Forwarded) ps @ dueCommands teams (map fst ps))
       (lineBatches chunks [])"
proof -
  have "\<not> pendingInjection (initialCoord teams)"
    by (simp add: initialCoord_def)
  then show ?thesis
    unfolding batches_def by (rule batchesFrom_eq)
qed

lemma linePairs_append: "linePairs (xs @ ys) = linePairs xs @ linePairs ys"
  by (induction xs rule: linePairs.induct) auto

lemma linePairs_Forwarded: "linePairs (map (case_prod Forwarded) ps) = ps"
  by (induction ps) auto

lemma dueCommands_synthetic: "w \<in> set (dueCommands teams ls) \<Longrightarrow> isSynthetic w"
  by (auto simp: dueCommands_def split: if_splits)

lemma linePairs_synthetic: "\<forall>w\<in>set ws. isSynthetic w \<Longrightarrow> linePairs ws = []"
  by (induction ws rule: linePairs.induct) auto

lemma linePairs_dueCommands: "linePairs (dueCommands teams ls) = []"
  by (rule linePairs_synthetic) (simp add: dueCommands_synthetic)

lemma linePairs_concat: "linePairs (concat bs) = concat (map linePairs bs)"
  by (induction bs) (auto simp: linePairs_append)

lemma filter_synthetic_Forwarded: "filter isSynthetic (map (case_prod Forwarded) ps) = []"
  by (induction ps) auto

lemma filter_synthetic_due: "filter isSynthetic (dueCommands teams ls) = dueCommands teams ls"
  by (simp add: dueCommands_synthetic)

lemma linePairs_batch:
  "linePairs (map (case_prod Forwarded) ps @ dueCommands teams ls) = ps"
  by (simp add: linePairs_append linePairs_Forwarded linePairs_dueCommands)

lemma linePairs_pipe: "linePairs (pipeInputWithTeams teams chunks) = concat (lineBatches chunks [])"
  by (simp add: pipeInputWithTeams_def batches_eq linePairs_concat o_def linePairs_batch)

lemma lineBatches_join:
  "concat (map (\<lambda>(line, hadTerminator). if hadTerminator then line @ [newline] else line)
             (concat (lineBatches chunks buffer))) = buffer @ concat chunks"
proof (induction chunks arbitrary: buffer)
  case Nil
  then show ?case by simp
next
  case (Cons chunk chunks)
  have "concat (map (\<lambda>l. l @ [newline]) (butlast (split newline (buffer @ chunk))))
          @ last (split newline (buffer @ chunk)) = buffer @ chunk"
    by (rule split_join)
  then show ?case
    by (simp add: Cons.IH o_def)
qed

lemma lineBatches_no_newline:
  "newline \<notin> set buffer \<Longrightarrow> newline \<notin> set (concat (map fst (concat (lineBatches chunks buffer))))"
proof (induction chunks arbitrary: buffer)
  case Nil
  then show ?case by simp
next
  case (Cons chunk chunks)
  have l: "newline \<notin> set (last (split newline (buffer @ chunk)))"
    by (rule last_split_no_sep)
  have "\<forall>l\<in>set (butlast (split newline (buffer @ chunk))). newline \<notin> set l"
    by (meson in_set_butlastD split_no_sep)
  then show ?case
    using Cons.IH [OF l] by (auto simp: o_def)
qed

lemma textLines_plain: "newline \<notin> set s \<Longrightarrow> textLines s = (if s = [] then [] else [s])"
  by (simp add: textLines_def split_last_idem)

lemma textLines_append:
  "textLines (s @ t) = butlast (split newline s) @ textLines (last (split newline s) @ t)"
  by (simp add: textLines_def split_append [of newline s t] butlast_append)

lemma lineBatches_textLines:
  "newline \<notin> set buffer \<Longrightarrow>
   map fst (concat (lineBatches chunks buffer)) = textLines (buffer @ concat chunks)"
proof (induction chunks arbitrary: buffer)
  case Nil
  then show ?case by (simp add: textLines_plain)
next
  case (Cons chunk chunks)
  have l: "newline \<notin> set (last (split newline (buffer @ chunk)))"
    by (rule last_split_no_sep)
  have "textLines ((buffer @ chunk) @ concat chunks) =
          butlast (split newline (buffer @ chunk))
            @ textLines (last (split newline (buffer @ chunk)) @ concat chunks)"
    by (rule textLines_append)
  then show ?case
    using Cons.IH [OF l] by (simp add: o_def)
qed

lemma isPlayerLine_simps:
  "isPlayerLine P1 l = startsWith l ''>player p1 ''"
  "isPlayerLine P2 l = startsWith l ''>player p2 ''"
  by (simp_all add: isPlayerLine_def)

lemma set_afterLastMarker: "set (afterLastMarker ls) \<subseteq> set ls"
  by (auto simp: afterLastMarker_def dest: set_takeWhileD)

lemma due_no_player:
  assumes "truthy (teams P1)" "truthy (teams P2)"
    and "\<forall>l\<in>set ls. \<not> isPlayerLine P1 l \<and> \<not> isPlayerLine P2 l"
  shows "dueCommands teams ls =
           (if \<exists>l\<in>set ls. isMarker l
            then [Synthetic P1 (the (teams P1)), Synthetic P2 (the (teams P2))] else [])"
proof -
  have "\<forall>l\<in>set (afterLastMarker ls). \<not> isPlayerLine P1 l \<and> \<not> isPlayerLine P2 l"
    using assms(3) set_afterLastMarker [of ls] by blast
  then show ?thesis
    using assms(1,2) by (simp add: dueCommands_def PLAYER_SLOTS_def)
qed

lemma concat_marked_none:
  "filter P (concat xss) = [] \<Longrightarrow>
   concat (map (\<lambda>xs. if \<exists>x\<in>set xs. P x then A else []) xss) = []"
  by (induction xss) (auto simp: filter_empty_conv)

lemma concat_marked_one:
  "filter P (concat xss) = [m] \<Longrightarrow>
   concat (map (\<lambda>xs. if \<exists>x\<in>set xs. P x then A else []) xss) = A"
proof (induction xss)
  case Nil
  then show ?case by simp
next
  case (Cons xs xss)
  from Cons.prems have eq: "filter P xs @ filter P (concat xss) = [m]"
    by simp
  show ?case
  proof (cases "filter P xs = []")
    case True
    then have "\<not> (\<exists>x\<in>set xs. P x)"
      by (simp add: filter_empty_conv)
    moreover from True eq have "filter P (concat xss) = [m]"
      by simp
    ultimately show ?thesis
      using Cons.IH by simp
  next
    case False
    with eq have r: "filter P (concat xss) = []"
      by (cases "filter P xs") auto
    from False have "\<exists>x\<in>set xs. P x"
      by (simp add: filter_empty_conv)
    then show ?thesis
      using concat_marked_none [OF r, of A] by simp
  qed
qed

lemma filter_synthetic_batches:
  "filter isSynthetic (concat (map (\<lambda>ps. map (case_prod Forwarded) ps @ dueCommands teams (map fst ps)) lbs))
     = concat (map (\<lambda>ps. dueCommands teams (map fst ps)) lbs)"
  by (induction lbs) (auto simp: filter_synthetic_Forwarded filter_synthetic_due)

lemma exampleTeams_simps:
  "truthy (exampleTeams P1)" "truthy (exampleTeams P2)"
  "the (exampleTeams P1) = ''team-a''" "the (exampleTeams P2) = ''team-b''"
  by (simp_all add: truthy_def exampleTeams_def)

lemma batch_split:
  assumes "map (case_prod Forwarded) ps @ syn = before @ Forwarded m e # after"
    and "\<forall>w\<in>set syn. isSynthetic w"
  shows "\<exists>q1 q2. ps = q1 @ (m, e) # q2 \<and> before = map (case_prod Forwarded) q1
           \<and> after = map (case_prod Forwarded) q2 @ syn"
  using assms
proof (induction ps arbitrary: before)
  case Nil
  then have "Forwarded m e \<in> set syn"
    by simp
  with Nil.prems(2) show ?case
    by auto
next
  case (Cons p ps)
  show ?case
  proof (cases before)
    case Nil
    with Cons.prems(1) have "p = (m, e)" "after = map (case_prod Forwarded) ps @ syn"
      by (cases p; simp)+
    then have "p # ps = [] @ (m, e) # ps \<and> before = map (case_prod Forwarded) []
           \<and> after = map (case_prod Forwarded) ps @ syn"
      using Nil by simp
    then show ?thesis
      by blast
  next
    case (Cons x before')
    with Cons.prems(1) have x: "x = case_prod Forwarded p"
      and r: "map (case_prod Forwarded) ps @ syn = before' @ Forwarded m e # after"
      by auto
    from Cons.IH [OF r Cons.prems(2)] obtain q1 q2 where
      "ps = q1 @ (m, e) # q2" "before' = map (case_prod Forwarded) q1"
      "after = map (case_prod Forwarded) q2 @ syn"
      by blast
    then have "p # ps = (p # q1) @ (m, e) # q2 \<and> before = map (case_prod Forwarded) (p # q1)
           \<and> after = map (case_prod Forwarded) q2 @ syn"
      using Cons x by simp
    then show ?thesis
      by blast
  qed
qed

lemma afterLastMarker_split:
  assumes "isMarker m" and "\<forall>l\<in>set post. \<not> isMarker l"
  shows "afterLastMarker (pre @ m # post) = post"
proof -
  have "takeWhile (\<lambda>l. \<not> isMarker l) (rev post @ m # rev pre)
          = rev post @ takeWhile (\<lambda>l. \<not> isMarker l) (m # rev pre)"
    by (rule takeWhile_append2) (use assms(2) in simp)
  then show ?thesis
    using assms(1) by (simp add: afterLastMarker_def)
qed

lemma no_synthetic_before_next_marker:
  "filter isSynthetic
     (takeWhile (\<lambda>w. \<not> isMarkerWrite w)
        (concat (map (\<lambda>ps. map (case_prod Forwarded) ps @ dueCommands teams (map fst ps)) lbs))) = []"
proof (induction lbs)
  case Nil
  then show ?case by simp
next
  case (Cons ps lbs)
  let ?rest = "concat (map (\<lambda>ps. map (case_prod Forwarded) ps @ dueCommands teams (map fst ps)) lbs)"
  show ?case
  proof (cases "\<exists>l\<in>set (map fst ps). isMarker l")
    case True
    then obtain l e where p: "(l, e) \<in> set ps" "isMarker l"
      by auto
    have w1: "Forwarded l e \<in> set (map (case_prod Forwarded) ps)"
      using p(1) by force
    have w2: "\<not> \<not> isMarkerWrite (Forwarded l e)"
      using p(2) by (simp add: isMarker_def)
    have "takeWhile (\<lambda>w. \<not> isMarkerWrite w)
            (map (case_prod Forwarded) ps @ (dueCommands teams (map fst ps) @ ?rest))
          = takeWhile (\<lambda>w. \<not> isMarkerWrite w) (map (case_prod Forwarded) ps)"
      using w1 w2 by (rule takeWhile_append1)
    moreover have "filter isSynthetic (takeWhile (\<lambda>w. \<not> isMarkerWrite w) (map (case_prod Forwarded) ps)) = []"
      by (auto simp: filter_empty_conv dest!: set_takeWhileD)
    ultimately show ?thesis
      by simp
  next
    case False
    then have d: "dueCommands teams (map fst ps) = []"
      by (simp add: dueCommands_def)
    have "\<forall>w\<in>set (map (case_prod Forwarded) ps). \<not> isMarkerWrite w"
      using False by (auto simp: isMarker_def)
    then have "takeWhile (\<lambda>w. \<not> isMarkerWrite w) (map (case_prod Forwarded) ps @ ?rest)
          = map (case_prod Forwarded) ps @ takeWhile (\<lambda>w. \<not> isMarkerWrite w) ?rest"
      by (intro takeWhile_append2) blast
    then show ?thesis
      using Cons.IH by (simp add: d filter_synthetic_Forwarded)
  qed
qed

lemmas run_defs = batches_def initialCoord_def feedChunk_def drainLines.simps newline_def
        handleLine_def injectTeams_def injectSlot_def atEnd_def pipeInputWithTeams_def
        PLAYER_SLOTS_def truthy_def exampleTeams_def

lemma batches_example2:
  "batches exampleTeams [''>start\<newline>>player p1 {}\<newline>'', ''>p2 move 1\<newline>'', ''>start\<newline>'']
     = [[Forwarded ''>start'' True, Forwarded ''>player p1 {}'' True, Synthetic P2 ''team-b''],
        [Forwarded ''>p2 move 1'' True],
        [Forwarded ''>start'' True, Synthetic P1 ''team-a'', Synthetic P2 ''team-b''],
        []]"
  by (simp add: run_defs)

lemma lineBatches_ne: "lineBatches chunks buffer \<noteq> []"
  by (cases chunks) simp_all

lemma last_lineBatches:
  "newline \<notin> set buffer \<Longrightarrow>
   last (lineBatches chunks buffer) =
     (if last (split newline (buffer @ concat chunks)) \<noteq> []
      then [(last (split newline (buffer @ concat chunks)), False)] else [])"
proof (induction chunks arbitrary: buffer)
  case Nil
  then show ?case
    by (simp add: split_last_idem)
next
  case (Cons chunk chunks)
  let ?b = "last (split newline (buffer @ chunk))"
  have l: "newline \<notin> set ?b"
    by (rule last_split_no_sep)
  have "split newline ((buffer @ chunk) @ concat chunks)
          = butlast (split newline (buffer @ chunk)) @ split newline (?b @ concat chunks)"
    by (rule split_append)
  then have "last (split newline (buffer @ chunk @ concat chunks))
          = last (split newline (?b @ concat chunks))"
    by simp
  then show ?case
    using Cons.IH [OF l] by (simp add: lineBatches_ne)
qed

lemma split_single: "split c s = [x] \<Longrightarrow> c \<notin> set s"
  by (induction s arbitrary: x) (auto split: list.splits if_splits)

lemma last_split_terminated: "s \<noteq> [] \<Longrightarrow> last s = c \<Longrightarrow> last (split c s) = []"
proof (induction s)
  case Nil
  then show ?case by simp
next
  case (Cons a s)
  show ?case
  proof (cases "s = []")
    case True
    with Cons.prems show ?thesis by simp
  next
    case False
    with Cons.prems have c: "last s = c" by simp
    then have "c \<in> set s"
      using False last_in_set by blast
    then have "\<And>x. split c s \<noteq> [x]"
      using split_single by blast
    then show ?thesis
      using Cons.IH [OF False c] by (auto split: list.splits)
  qed
qed

lemma last_split_trailing:
  assumes "lead = [] \<or> last lead = newline" and "newline \<notin> set trailing"
  shows "last (split newline (lead @ trailing)) = trailing"
proof -
  have "last (split newline lead) = []"
    using assms(1) last_split_terminated [of lead newline] by (cases "lead = []") auto
  then have "split newline (lead @ trailing) = butlast (split newline lead) @ split newline trailing"
    using split_append [of newline lead trailing] by simp
  then show ?thesis
    using assms(2) by (simp add: split_last_idem)
qed

lemma lineBatches_length: "length (lineBatches chunks buffer) = Suc (length chunks)"
  by (induction chunks arbitrary: buffer) simp_all

lemma lineBatches_take:
  "newline \<notin> set buffer \<Longrightarrow> i \<le> length chunks \<Longrightarrow>
   concat (take i (lineBatches chunks buffer))
     = map (\<lambda>l. (l, True)) (butlast (split newline (buffer @ concat (take i chunks))))"
proof (induction chunks arbitrary: i buffer)
  case Nil
  then show ?case
    by (simp add: split_last_idem)
next
  case (Cons chunk chunks)
  show ?case
  proof (cases i)
    case 0
    then show ?thesis
      using Cons.prems by (simp add: split_last_idem)
  next
    case (Suc j)
    have l: "newline \<notin> set (last (split newline (buffer @ chunk)))"
      by (rule last_split_no_sep)
    have j: "j \<le> length chunks"
      using Cons.prems Suc by simp
    have "split newline ((buffer @ chunk) @ concat (take j chunks))
            = butlast (split newline (buffer @ chunk))
                @ split newline (last (split newline (buffer @ chunk)) @ concat (take j chunks))"
      by (rule split_append)
    then have "butlast (split newline (buffer @ chunk @ concat (take j chunks)))
            = butlast (split newline (buffer @ chunk))
                @ butlast (split newline
                    (last (split newline (buffer @ chunk)) @ concat (take j chunks)))"
      by (simp add: butlast_append)
    then show ?thesis
      using Cons.IH [OF l j] Suc by simp
  qed
qed

lemma lineBatches_nth:
  assumes "i < length chunks"
  shows "lineBatches chunks [] ! i = map (\<lambda>l. (l, True)) (completedLines chunks i)"
proof -
  let ?lbs = "lineBatches chunks []"
  have i: "i < length ?lbs"
    using assms by (simp add: lineBatches_length)
  have "concat (take (Suc i) ?lbs) = concat (take i ?lbs) @ ?lbs ! i"
    using i by (simp add: take_Suc_conv_app_nth)
  then have "?lbs ! i = drop (length (concat (take i ?lbs))) (concat (take (Suc i) ?lbs))"
    by simp
  also have "concat (take i ?lbs)
      = map (\<lambda>l. (l, True)) (butlast (split newline (concat (take i chunks))))"
    using lineBatches_take [of "[]" i chunks] assms by simp
  also have "concat (take (Suc i) ?lbs)
      = map (\<lambda>l. (l, True)) (butlast (split newline (concat (take (Suc i) chunks))))"
    using lineBatches_take [of "[]" "Suc i" chunks] assms by simp
  finally show ?thesis
    by (simp add: completedLines_def drop_map)
qed

lemma list_of_five: "length xs = 5 \<Longrightarrow> xs = [xs ! 0, xs ! 1, xs ! 2, xs ! 3, xs ! 4]"
  by (auto simp: length_Suc_conv eval_nat_numeral)

section \<open>Properties of the write side\<close>

text \<open>
  Claim C4 (line reassembly). For every way of cutting a text into chunks, empty chunks and
  cuts inside a line included, the (line, hadNewline) pairs handed to \<^verbatim>\<open>handleLine\<close>,
  each line followed by a newline exactly when its flag is set, concatenate to the text, and
  no line contains a newline. The teams play no part.
\<close>

theorem line_reassembly:
  "concat (map (\<lambda>(line, hadTerminator). if hadTerminator then line @ [newline] else line)
             (linePairs (pipeInputWithTeams teams chunks))) = concat chunks
   \<and> newline \<notin> set (concat (map fst (linePairs (pipeInputWithTeams teams chunks))))"
  using lineBatches_join [of chunks "[]"] lineBatches_no_newline [of "[]" chunks]
  by (simp add: linePairs_pipe)

text \<open>
  Claim C1 (injection exactly once). Both slots have a team, and the input text is a line
  starting with \<^verbatim>\<open>>start\<close> followed by lines that start neither with \<^verbatim>\<open>>start\<close> nor with
  \<^verbatim>\<open>>player p1 \<close> or \<^verbatim>\<open>>player p2 \<close>, cut into chunks in any way. Then the run writes exactly
  two synthetic commands, first the one for p1 and then the one for p2; and every iteration's
  writes are the lines it forwarded followed, in the iteration that forwarded the marker and
  only there, by the two commands. There is one iteration for each chunk and one at the end
  of the input. The iteration of the chunk at position \<open>i\<close> writes the lines completed by
  that chunk, as read off the input text, each with its newline, and then, exactly when the
  marker is one of them, the two commands: they come after every line delivered with the
  marker and before any line completed by a later chunk. The iteration at the end of the
  input writes the unterminated rest of the text, if there is one, without a newline, and
  after it the two commands exactly when that rest is the marker.
\<close>

theorem injection_exactly_once:
  assumes "truthy (teams P1)" and "truthy (teams P2)"
    and "textLines (concat chunks) = marker # commands"
    and "startsWith marker ''>start''"
    and "\<forall>l\<in>set commands. \<not> startsWith l ''>start''
           \<and> \<not> startsWith l ''>player p1 '' \<and> \<not> startsWith l ''>player p2 ''"
  shows "filter isSynthetic (pipeInputWithTeams teams chunks)
           = [Synthetic P1 (the (teams P1)), Synthetic P2 (the (teams P2))]
       \<and> (\<forall>b\<in>set (batches teams chunks).
            b = map (case_prod Forwarded) (linePairs b)
                  @ (if \<exists>l\<in>set (map fst (linePairs b)). startsWith l ''>start''
                     then [Synthetic P1 (the (teams P1)), Synthetic P2 (the (teams P2))]
                     else []))
       \<and> length (batches teams chunks) = Suc (length chunks)
       \<and> (\<forall>i<length chunks.
            batches teams chunks ! i
              = map (\<lambda>l. Forwarded l True) (completedLines chunks i)
                  @ (if \<exists>l\<in>set (completedLines chunks i). startsWith l ''>start''
                     then [Synthetic P1 (the (teams P1)), Synthetic P2 (the (teams P2))]
                     else []))
       \<and> last (batches teams chunks)
           = (if last (split newline (concat chunks)) = [] then []
              else Forwarded (last (split newline (concat chunks))) False
                     # (if startsWith (last (split newline (concat chunks))) ''>start''
                        then [Synthetic P1 (the (teams P1)), Synthetic P2 (the (teams P2))]
                        else []))"
proof -
  let ?S = "[Synthetic P1 (the (teams P1)), Synthetic P2 (the (teams P2))]"
  let ?lbs = "lineBatches chunks []"
  let ?G = "\<lambda>ps. map (case_prod Forwarded) ps @ dueCommands teams (map fst ps)"
  let ?rest = "last (split newline (concat chunks))"
  have all: "map fst (concat ?lbs) = marker # commands"
    using lineBatches_textLines [of "[]" chunks] assms(3) by simp
  have m: "isMarker marker"
    using assms(4) by (simp add: isMarker_def)
  have noplayer: "\<not> isPlayerLine P1 l \<and> \<not> isPlayerLine P2 l" if "l \<in> set (marker # commands)" for l
    using that assms(5) marker_not_player [OF m, of P1] marker_not_player [OF m, of P2]
    by (auto simp: isPlayerLine_simps)
  have due: "dueCommands teams (map fst ps) = (if \<exists>l\<in>set (map fst ps). isMarker l then ?S else [])"
    if "ps \<in> set ?lbs" for ps
  proof (rule due_no_player [OF assms(1,2)], rule ballI)
    fix l assume "l \<in> set (map fst ps)"
    then have "l \<in> set (map fst (concat ?lbs))"
      using that by auto
    then show "\<not> isPlayerLine P1 l \<and> \<not> isPlayerLine P2 l"
      using noplayer all by simp
  qed
  have "filter isMarker (marker # commands) = [marker]"
    using m assms(5) by (simp add: isMarker_def filter_empty_conv)
  then have one: "filter isMarker (concat (map (map fst) ?lbs)) = [marker]"
    using all by (simp add: map_concat)
  have "filter isSynthetic (pipeInputWithTeams teams chunks)
          = concat (map (\<lambda>ps. dueCommands teams (map fst ps)) ?lbs)"
    by (simp add: pipeInputWithTeams_def batches_eq filter_synthetic_batches)
  also have "\<dots> = concat (map (\<lambda>ps. if \<exists>l\<in>set (map fst ps). isMarker l then ?S else []) ?lbs)"
    using due by (auto intro!: arg_cong [where f = concat])
  also have "\<dots> = concat (map (\<lambda>ls. if \<exists>l\<in>set ls. isMarker l then ?S else []) (map (map fst) ?lbs))"
    by (simp add: o_def)
  also have "\<dots> = ?S"
    by (rule concat_marked_one [OF one])
  finally have A: "filter isSynthetic (pipeInputWithTeams teams chunks) = ?S" .
  have B: "b = map (case_prod Forwarded) (linePairs b)
                  @ (if \<exists>l\<in>set (map fst (linePairs b)). startsWith l ''>start'' then ?S else [])"
    if "b \<in> set (batches teams chunks)" for b
  proof -
    from that obtain ps where ps: "ps \<in> set ?lbs"
      and b: "b = map (case_prod Forwarded) ps @ dueCommands teams (map fst ps)"
      by (auto simp: batches_eq)
    have "linePairs b = ps"
      by (simp add: b linePairs_batch)
    then show ?thesis
      using b due [OF ps] by (simp add: isMarker_def)
  qed
  have C: "length (batches teams chunks) = Suc (length chunks)"
    by (simp add: batches_eq lineBatches_length)
  have D: "batches teams chunks ! i
              = map (\<lambda>l. Forwarded l True) (completedLines chunks i)
                  @ (if \<exists>l\<in>set (completedLines chunks i). startsWith l ''>start'' then ?S else [])"
    if i: "i < length chunks" for i
  proof -
    have len: "i < length ?lbs"
      using i by (simp add: lineBatches_length)
    then have mem: "?lbs ! i \<in> set ?lbs"
      by (rule nth_mem)
    have n: "?lbs ! i = map (\<lambda>l. (l, True)) (completedLines chunks i)"
      using i by (rule lineBatches_nth)
    have f: "map fst (?lbs ! i) = completedLines chunks i"
      by (simp add: n o_def)
    have "batches teams chunks ! i = ?G (?lbs ! i)"
      using len by (simp add: batches_eq)
    also have "\<dots> = map (case_prod Forwarded) (?lbs ! i)
                       @ (if \<exists>l\<in>set (completedLines chunks i). isMarker l then ?S else [])"
      using due [OF mem] by (simp only: f)
    finally show ?thesis
      by (simp add: n o_def isMarker_def)
  qed
  have E: "last (batches teams chunks)
           = (if ?rest = [] then []
              else Forwarded ?rest False # (if startsWith ?rest ''>start'' then ?S else []))"
  proof -
    have l: "last ?lbs = (if ?rest \<noteq> [] then [(?rest, False)] else [])"
      using last_lineBatches [of "[]" chunks] by simp
    have mem: "last ?lbs \<in> set ?lbs"
      by (rule last_in_set) (rule lineBatches_ne)
    have "last (batches teams chunks) = ?G (last ?lbs)"
      by (simp add: batches_eq last_map lineBatches_ne)
    also have "\<dots> = map (case_prod Forwarded) (last ?lbs)
                       @ (if \<exists>l\<in>set (map fst (last ?lbs)). isMarker l then ?S else [])"
      using due [OF mem] by simp
    finally show ?thesis
      by (simp add: l isMarker_def)
  qed
  from A B C D E show ?thesis
    by blast
qed

theorem injection_exactly_once_witness:
  "truthy (exampleTeams P1) \<and> truthy (exampleTeams P2)
   \<and> textLines (concat [''>sta'', ''rt {}\<newline>>p1 move 1\<newline>ha'', '''', ''lf\<newline>''])
       = ''>start {}'' # [''>p1 move 1'', ''half'']
   \<and> startsWith ''>start {}'' ''>start''
   \<and> list_all (\<lambda>l. \<not> startsWith l ''>start''
           \<and> \<not> startsWith l ''>player p1 '' \<and> \<not> startsWith l ''>player p2 '')
         [''>p1 move 1'', ''half'']
   \<and> filter isSynthetic
         (pipeInputWithTeams exampleTeams [''>sta'', ''rt {}\<newline>>p1 move 1\<newline>ha'', '''', ''lf\<newline>''])
       = [Synthetic P1 ''team-a'', Synthetic P2 ''team-b'']
   \<and> completedLines [''>sta'', ''rt {}\<newline>>p1 move 1\<newline>ha'', '''', ''lf\<newline>''] 1
       = [''>start {}'', ''>p1 move 1'']
   \<and> completedLines [''>sta'', ''rt {}\<newline>>p1 move 1\<newline>ha'', '''', ''lf\<newline>''] 3 = [''half'']
   \<and> batches exampleTeams [''>sta'', ''rt {}\<newline>>p1 move 1\<newline>ha'', '''', ''lf\<newline>'']
       = [[],
          [Forwarded ''>start {}'' True, Forwarded ''>p1 move 1'' True,
           Synthetic P1 ''team-a'', Synthetic P2 ''team-b''],
          [],
          [Forwarded ''half'' True],
          []]"
proof -
  let ?cs = "[''>sta'', ''rt {}\<newline>>p1 move 1\<newline>ha'', '''', ''lf\<newline>'']"
  have l: "textLines (concat ?cs) = ''>start {}'' # [''>p1 move 1'', ''half'']"
    by (simp add: textLines_def newline_def)
  have m: "startsWith ''>start {}'' ''>start''"
    by simp
  have c: "\<forall>l\<in>set [''>p1 move 1'', ''half'']. \<not> startsWith l ''>start''
           \<and> \<not> startsWith l ''>player p1 '' \<and> \<not> startsWith l ''>player p2 ''"
    by simp
  note T = injection_exactly_once [OF exampleTeams_simps(1,2) l m c]
  have s: "filter isSynthetic (pipeInputWithTeams exampleTeams ?cs)
       = [Synthetic P1 ''team-a'', Synthetic P2 ''team-b'']"
    using T by (simp only: exampleTeams_simps)
  have c0: "completedLines ?cs 0 = []"
    and c1: "completedLines ?cs 1 = [''>start {}'', ''>p1 move 1'']"
    and c2: "completedLines ?cs 2 = []"
    and c3: "completedLines ?cs 3 = [''half'']"
    by (simp_all add: completedLines_def newline_def)
  have r: "last (split newline (concat ?cs)) = []"
    by (simp add: newline_def)
  have len: "length (batches exampleTeams ?cs) = 5"
    using T by simp
  have b0: "batches exampleTeams ?cs ! 0 = []"
    using T c0 by simp
  have b1: "batches exampleTeams ?cs ! 1
      = [Forwarded ''>start {}'' True, Forwarded ''>p1 move 1'' True,
         Synthetic P1 ''team-a'', Synthetic P2 ''team-b'']"
    using T c1 by (simp add: exampleTeams_simps)
  have b2: "batches exampleTeams ?cs ! 2 = []"
    using T c2 by simp
  have b3: "batches exampleTeams ?cs ! 3 = [Forwarded ''half'' True]"
    using T c3 by simp
  have ne: "batches exampleTeams ?cs \<noteq> []"
    using len by auto
  have "last (batches exampleTeams ?cs) = []"
    using T r by simp
  then have b4: "batches exampleTeams ?cs ! 4 = []"
    using len by (simp add: last_conv_nth [OF ne])
  have b: "batches exampleTeams ?cs
       = [[],
          [Forwarded ''>start {}'' True, Forwarded ''>p1 move 1'' True,
           Synthetic P1 ''team-a'', Synthetic P2 ''team-b''],
          [],
          [Forwarded ''half'' True],
          []]"
    by (subst list_of_five [OF len]) (simp only: b0 b1 b2 b3 b4)
  from exampleTeams_simps(1,2) l m c s c1 c3 b show ?thesis
    by (simp only: list_all_iff)
qed

text \<open>
  Claim C2 (injection deference), as stated, fails: with teams for both slots and the single
  chunk \<^verbatim>\<open>>start\<close>, \<^verbatim>\<open>>player p1 {}\<close>, \<^verbatim>\<open>>player p2 {}\<close>, a \<^verbatim>\<open>>player p1 \<close> line follows the
  marker before the injection point, yet no synthetic command is written for p2 either: the
  controller has taken that slot as well.
\<close>

theorem injection_deference_counterexample:
  "truthy (exampleTeams P1) \<and> truthy (exampleTeams P2)
   \<and> pipeInputWithTeams exampleTeams [''>start\<newline>>player p1 {}\<newline>>player p2 {}\<newline>'']
       = [Forwarded ''>start'' True, Forwarded ''>player p1 {}'' True,
          Forwarded ''>player p2 {}'' True]"
  by (simp add: run_defs)

text \<open>
  Claim C2, amended. Both slots have a team. In some iteration a marker line is forwarded;
  the lines forwarded after it in that iteration hold no further marker and no
  \<^verbatim>\<open>>player p2 \<close> line, and at least one \<^verbatim>\<open>>player p1 \<close> line. Then from that marker up to
  the next marker line (or the end of the run) the only synthetic command written is the one
  for p2, written once: none is written for p1.
\<close>

theorem injection_deference:
  assumes "truthy (teams P1)" and "truthy (teams P2)"
    and "k < length (batches teams chunks)"
    and "batches teams chunks ! k = before @ Forwarded marker e # after"
    and "startsWith marker ''>start''"
    and "\<forall>l\<in>set (map fst (linePairs after)).
           \<not> startsWith l ''>start'' \<and> \<not> startsWith l ''>player p2 ''"
    and "\<exists>l\<in>set (map fst (linePairs after)). startsWith l ''>player p1 ''"
  shows "filter isSynthetic
           (after @ takeWhile (\<lambda>w. \<not> isMarkerWrite w)
                      (concat (drop (Suc k) (batches teams chunks))))
         = [Synthetic P2 (the (teams P2))]"
proof -
  let ?G = "\<lambda>ps. map (case_prod Forwarded) ps @ dueCommands teams (map fst ps)"
  let ?lbs = "lineBatches chunks []"
  have k: "k < length ?lbs"
    using assms(3) by (simp add: batches_eq)
  define ps where "ps = ?lbs ! k"
  have "?G ps = before @ Forwarded marker e # after"
    using assms(4) k by (simp add: batches_eq ps_def)
  then obtain q1 q2 where ps: "ps = q1 @ (marker, e) # q2"
    and after: "after = map (case_prod Forwarded) q2 @ dueCommands teams (map fst ps)"
    using batch_split [of ps "dueCommands teams (map fst ps)" before marker e after]
    by (auto simp: dueCommands_synthetic)
  have q2: "linePairs after = q2"
    by (simp add: after linePairs_batch)
  have m: "isMarker marker"
    using assms(5) by (simp add: isMarker_def)
  have nom: "\<forall>l\<in>set (map fst q2). \<not> isMarker l"
    using assms(6) q2 by (simp add: isMarker_def)
  have alm: "afterLastMarker (map fst ps) = map fst q2"
    using afterLastMarker_split [OF m nom, of "map fst q1"] by (simp add: ps)
  have "\<exists>l\<in>set (map fst ps). isMarker l"
    using m by (auto simp: ps)
  then have due: "dueCommands teams (map fst ps) = [Synthetic P2 (the (teams P2))]"
    using assms(1,2,6,7) q2
    by (simp add: dueCommands_def alm PLAYER_SLOTS_def isPlayerLine_simps)
  have A: "filter isSynthetic after = [Synthetic P2 (the (teams P2))]"
    by (simp add: after due filter_synthetic_Forwarded)
  have "drop (Suc k) (batches teams chunks) = map ?G (drop (Suc k) ?lbs)"
    by (simp add: batches_eq drop_map)
  then have B: "filter isSynthetic (takeWhile (\<lambda>w. \<not> isMarkerWrite w)
                      (concat (drop (Suc k) (batches teams chunks)))) = []"
    by (simp only: no_synthetic_before_next_marker)
  from A B show ?thesis
    by simp
qed

theorem injection_deference_witness:
  "truthy (exampleTeams P1) \<and> truthy (exampleTeams P2)
   \<and> 0 < length (batches exampleTeams
                    [''>start\<newline>>player p1 {}\<newline>'', ''>p2 move 1\<newline>'', ''>start\<newline>''])
   \<and> batches exampleTeams
         [''>start\<newline>>player p1 {}\<newline>'', ''>p2 move 1\<newline>'', ''>start\<newline>''] ! 0
       = [] @ Forwarded ''>start'' True
              # [Forwarded ''>player p1 {}'' True, Synthetic P2 ''team-b'']
   \<and> startsWith ''>start'' ''>start''
   \<and> list_all (\<lambda>l. \<not> startsWith l ''>start'' \<and> \<not> startsWith l ''>player p2 '')
         (map fst (linePairs [Forwarded ''>player p1 {}'' True, Synthetic P2 ''team-b'']))
   \<and> (\<exists>l\<in>set (map fst (linePairs [Forwarded ''>player p1 {}'' True, Synthetic P2 ''team-b''])).
           startsWith l ''>player p1 '')
   \<and> filter isSynthetic
         ([Forwarded ''>player p1 {}'' True, Synthetic P2 ''team-b'']
            @ takeWhile (\<lambda>w. \<not> isMarkerWrite w)
                (concat (drop (Suc 0) (batches exampleTeams
                   [''>start\<newline>>player p1 {}\<newline>'', ''>p2 move 1\<newline>'', ''>start\<newline>'']))))
       = [Synthetic P2 ''team-b'']"
proof -
  let ?cs = "[''>start\<newline>>player p1 {}\<newline>'', ''>p2 move 1\<newline>'', ''>start\<newline>'']"
  let ?after = "[Forwarded ''>player p1 {}'' True, Synthetic P2 ''team-b'']"
  have k: "0 < length (batches exampleTeams ?cs)"
    by (simp add: batches_example2)
  have b: "batches exampleTeams ?cs ! 0 = [] @ Forwarded ''>start'' True # ?after"
    by (simp add: batches_example2)
  have m: "startsWith ''>start'' ''>start''"
    by simp
  have n: "\<forall>l\<in>set (map fst (linePairs ?after)).
             \<not> startsWith l ''>start'' \<and> \<not> startsWith l ''>player p2 ''"
    by simp
  have p: "\<exists>l\<in>set (map fst (linePairs ?after)). startsWith l ''>player p1 ''"
    by simp
  from injection_deference [OF exampleTeams_simps(1,2) k b m n p]
  have "filter isSynthetic
         (?after @ takeWhile (\<lambda>w. \<not> isMarkerWrite w)
                     (concat (drop (Suc 0) (batches exampleTeams ?cs))))
       = [Synthetic P2 ''team-b'']"
    by (simp only: exampleTeams_simps)
  with exampleTeams_simps(1,2) k b m n p show ?thesis
    by (simp only: list_all_iff)
qed




text \<open>
  Claim C10 (unterminated marker at the end of the input). The input ends with a non-empty
  line without newline. Then the last writes of the run are that line as it is, without a
  newline, and, exactly when it starts with \<^verbatim>\<open>>start\<close> (injection is then due at the end of
  the input), directly after it the synthetic command of every slot that has a team: in the
  bytes written, the first command follows the line with nothing between them.
  \<^verbatim>\<open>stream.writeEnd()\<close> comes after these writes.
\<close>

theorem trailing_marker_injection:
  assumes "concat chunks = lead @ trailing"
    and "lead = [] \<or> last lead = newline"
    and "trailing \<noteq> []" and "newline \<notin> set trailing"
  shows "last (batches teams chunks)
           = Forwarded trailing False
               # (if startsWith trailing ''>start''
                  then map (\<lambda>slot. Synthetic slot (the (teams slot)))
                         (filter (\<lambda>slot. truthy (teams slot)) PLAYER_SLOTS)
                  else [])
       \<and> (startsWith trailing ''>start'' \<longrightarrow>
            concat (map written (last (batches teams chunks)))
              = trailing
                  @ concat (map (\<lambda>slot. ''>player '' @ slotName slot @ '' ''
                                         @ jsonTeam (the (teams slot)) @ [newline])
                              (filter (\<lambda>slot. truthy (teams slot)) PLAYER_SLOTS)))
       \<and> pipeInputWithTeams teams chunks
           = concat (butlast (batches teams chunks)) @ last (batches teams chunks)"
proof -
  let ?G = "\<lambda>ps. map (case_prod Forwarded) ps @ dueCommands teams (map fst ps)"
  let ?syn = "map (\<lambda>slot. Synthetic slot (the (teams slot)))
                (filter (\<lambda>slot. truthy (teams slot)) PLAYER_SLOTS)"
  have t: "last (split newline ([] @ concat chunks)) = trailing"
    using last_split_trailing [OF assms(2,4)] assms(1) by simp
  have "last (lineBatches chunks []) = [(trailing, False)]"
    using last_lineBatches [of "[]" chunks] assms(3) by (simp only: t) simp
  then have "last (batches teams chunks) = ?G [(trailing, False)]"
    by (simp add: batches_eq last_map lineBatches_ne)
  moreover have "dueCommands teams [trailing]
      = (if startsWith trailing ''>start'' then ?syn else [])"
    by (simp add: dueCommands_def isMarker_def afterLastMarker_def)
  ultimately have A: "last (batches teams chunks)
           = Forwarded trailing False # (if startsWith trailing ''>start'' then ?syn else [])"
    by simp
  have B: "startsWith trailing ''>start'' \<longrightarrow>
            concat (map written (last (batches teams chunks)))
              = trailing
                  @ concat (map (\<lambda>slot. ''>player '' @ slotName slot @ '' ''
                                         @ jsonTeam (the (teams slot)) @ [newline])
                              (filter (\<lambda>slot. truthy (teams slot)) PLAYER_SLOTS))"
    unfolding A by (simp add: o_def)
  have "batches teams chunks \<noteq> []"
    by (simp add: batches_eq lineBatches_ne)
  then have "concat (butlast (batches teams chunks) @ [last (batches teams chunks)])
      = concat (batches teams chunks)"
    by simp
  then have C: "pipeInputWithTeams teams chunks
           = concat (butlast (batches teams chunks)) @ last (batches teams chunks)"
    by (simp add: pipeInputWithTeams_def)
  from A B C show ?thesis
    by blast
qed

theorem trailing_marker_injection_witness:
  "concat [''>p1 move 1\<newline>>st'', ''art''] = ''>p1 move 1\<newline>'' @ ''>start''
   \<and> (''>p1 move 1\<newline>'' = [] \<or> last ''>p1 move 1\<newline>'' = newline)
   \<and> ''>start'' \<noteq> [] \<and> newline \<notin> set ''>start'' \<and> startsWith ''>start'' ''>start''
   \<and> concat (map written (pipeInputWithTeams exampleTeams [''>p1 move 1\<newline>>st'', ''art'']))
       = ''>p1 move 1\<newline>>start>player p1 {'' @ jsonString ''team'' @ '':'' @ jsonString ''team-a''
           @ ''}\<newline>>player p2 {'' @ jsonString ''team'' @ '':'' @ jsonString ''team-b'' @ ''}\<newline>''"
proof -
  let ?cs = "[''>p1 move 1\<newline>>st'', ''art'']"
  have c: "concat ?cs = ''>p1 move 1\<newline>'' @ ''>start''"
    by simp
  have t: "''>p1 move 1\<newline>'' = [] \<or> last ''>p1 move 1\<newline>'' = newline"
    by (simp add: newline_def)
  have n: "''>start'' \<noteq> []" "newline \<notin> set ''>start''"
    by (simp_all add: newline_def)
  have m: "startsWith ''>start'' ''>start''"
    by simp
  have b: "concat (butlast (batches exampleTeams ?cs)) = [Forwarded ''>p1 move 1'' True]"
    by (simp add: run_defs)
  from trailing_marker_injection [OF c t n, of exampleTeams] m
  have "concat (map written (pipeInputWithTeams exampleTeams ?cs))
       = ''>p1 move 1\<newline>>start>player p1 {'' @ jsonString ''team'' @ '':'' @ jsonString ''team-a''
           @ ''}\<newline>>player p2 {'' @ jsonString ''team'' @ '':'' @ jsonString ''team-b'' @ ''}\<newline>''"
    by (simp add: b exampleTeams_simps PLAYER_SLOTS_def jsonTeam_def newline_def)
  with c t n m show ?thesis
    by blast
qed

section \<open>Lemmas about the read side\<close>

lemma format_discarded: "discarded msg \<Longrightarrow> format msg f = (Inr None, f)"
  by (auto simp: format_def discarded_def Let_def)

lemma format_kept:
  "\<not> discarded msg \<Longrightarrow>
   format msg f =
     (case stampOf (updated (trim msg) f) of
        Inl e \<Rightarrow> (Inl e, updated (trim msg) f)
      | Inr ts \<Rightarrow>
          (Inr (Some \<lparr>message = trim msg, timestamp = ts,
                      turn = currentTurn (updated (trim msg) f),
                      player = extractPlayer (trim msg)\<rparr>), updated (trim msg) f))"
  by (cases f) (auto simp: format_def discarded_def Let_def stampOf_def updated_def
       split: option.splits sum.splits)

lemma format_state:
  "snd (format msg f) = (if discarded msg then f else updated (trim msg) f)"
  by (cases "discarded msg") (auto simp: format_discarded format_kept split: sum.splits)

lemma format_Some:
  assumes "format msg f = (Inr (Some e), f')"
  shows "\<not> discarded msg" and "f' = updated (trim msg) f"
    and "stampOf f' = Inr (timestamp e)"
    and "message e = trim msg" and "turn e = currentTurn f'"
    and "player e = extractPlayer (trim msg)"
proof -
  show d: "\<not> discarded msg"
    using assms by (auto simp: format_discarded)
  from assms format_kept [OF d, of f]
  show "f' = updated (trim msg) f" "stampOf f' = Inr (timestamp e)" "message e = trim msg"
    "turn e = currentTurn f'" "player e = extractPlayer (trim msg)"
    by (auto split: sum.splits)
qed


lemma format_ok_stamp:
  "format msg f = (Inr r, f') \<Longrightarrow> stampOf f \<noteq> Inl RangeError \<Longrightarrow> stampOf f' \<noteq> Inl RangeError"
  by (cases "discarded msg") (auto simp: format_discarded format_kept split: sum.splits)

lemma reachable_stamp: "reachable f \<Longrightarrow> stampOf f \<noteq> Inl RangeError"
proof (induction rule: reachable.induct)
  case fresh
  then show ?case by (simp add: stampOf_def newFormatter_def)
next
  case (step f msg r f')
  from step(2,3) show ?case by (rule format_ok_stamp)
qed

lemma format_same_timestamp:
  assumes "\<not> discarded msg" and "extractTimestamp (trim msg) = None"
  shows "format msg f =
           (case stampOf f of
              Inl e \<Rightarrow> (Inl e, updated (trim msg) f)
            | Inr ts \<Rightarrow>
                (Inr (Some \<lparr>message = trim msg, timestamp = ts,
                            turn = currentTurn (updated (trim msg) f),
                            player = extractPlayer (trim msg)\<rparr>), updated (trim msg) f))"
proof -
  have "battleTimestamp (updated (trim msg) f) = battleTimestamp f"
    using assms(2) by (simp add: updated_def)
  then have "stampOf (updated (trim msg) f) = stampOf f"
    by (simp add: stampOf_def)
  then show ?thesis
    by (simp add: format_kept [OF assms(1)])
qed

lemma split_timestamp_line:
  "split CHR ''|'' (''|t:|'' @ rest) = [] # ''t:'' # split CHR ''|'' rest"
  by (cases "split CHR ''|'' rest") simp_all

lemma startsWith_append [simp]: "startsWith (p @ r) p"
  by (induction p) auto

lemmas number_defs = Number_def trim_def isWhiteSpace_def strDecimal_def unsignedDecimal_def
  exponentPart_def isDigit_def decimalValue_def digitVal_def pow10_def
  radixValue_def hexVal_def finiteValue_def

lemmas round_defs = roundDouble_def nearest_def quantum_def floorLog2_def bitLength.simps
  pow2_def roundHalfEven_def

lemmas date_defs = dateToISOString_def toInteger_def isoString_def timeString_def yearString_def
  civilYear_def civilMonth_def civilDay_def monthPart_def dayOfYear_def yearOfEra_def
  dayOfEra_def era_def pad2_def pad3_def pad4_def pad6_def digitChar_def

lemmas format_defs = format_def trim_def isWhiteSpace_def extractTimestamp_def extractTurn_def
  finiteValue_def

lemma round_5: "roundDouble 5 = Finite 5"
  by (simp add: round_defs)

lemma round_1000: "roundDouble 1000 = Finite 1000"
  by (simp add: round_defs)

lemma round_1000000: "roundDouble 1000000 = Finite 1000000"
  by (simp add: round_defs)

lemma round_8640000000001: "roundDouble 8640000000001 = Finite 8640000000001"
  by (simp add: round_defs)

lemma round_8640000000001000: "roundDouble 8640000000001000 = Finite 8640000000001000"
  by (simp add: round_defs)

lemma Number_1000: "Number ''1000'' = Finite 1000"
  by (simp add: number_defs round_1000)

lemma Number_5: "Number ''5'' = Finite 5"
  by (simp add: number_defs round_5)

lemma Number_8640000000001: "Number ''8640000000001'' = Finite 8640000000001"
  by (simp add: number_defs round_8640000000001)

lemma Number_notanumber: "Number ''notanumber'' = NaN"
  by (simp add: number_defs)

lemma date_1000: "isoOfSeconds 1000 = Inr ''1970-01-01T00:16:40.000Z''"
  by (simp add: isoOfSeconds_def mulDouble_def round_1000000 date_defs)

lemma date_8640000000001: "isoOfSeconds 8640000000001 = Inl RangeError"
  by (simp add: isoOfSeconds_def mulDouble_def round_8640000000001000 dateToISOString_def)

text \<open>
  The rounding is sound: \<open>floorLog2\<close> is the binary exponent of a positive value, and
  \<open>nearest\<close> is a multiple of the spacing at most half a spacing away.
\<close>

lemma bitLength_upper: "n < 2 ^ bitLength n"
proof (induction n rule: bitLength.induct)
  case (1 n)
  show ?case
  proof (cases "n = 0")
    case True
    then show ?thesis by (simp add: bitLength.simps)
  next
    case False
    then have "n div 2 < 2 ^ bitLength (n div 2)"
      using 1 by simp
    then have "n < 2 * 2 ^ bitLength (n div 2)"
      by linarith
    then show ?thesis
      using False by (subst bitLength.simps) simp
  qed
qed

lemma bitLength_lower: "0 < n \<Longrightarrow> 2 ^ (bitLength n - 1) \<le> n"
proof (induction n rule: bitLength.induct)
  case (1 n)
  show ?case
  proof (cases "n div 2 = 0")
    case True
    then have "bitLength n = 1"
      using 1(2) by (simp add: bitLength.simps [of n] bitLength.simps [of 0])
    then show ?thesis
      using 1(2) by simp
  next
    case False
    then have "2 ^ (bitLength (n div 2) - 1) \<le> n div 2"
      using 1 by simp
    moreover have "0 < bitLength (n div 2)"
      using False by (subst bitLength.simps) simp
    moreover have "bitLength n = Suc (bitLength (n div 2))"
      using 1(2) by (subst bitLength.simps) simp
    ultimately have "2 ^ (bitLength n - 1) \<le> 2 * (n div 2)"
      by (cases "bitLength (n div 2)") simp_all
    then show ?thesis
      by linarith
  qed
qed

lemma floorLog2_bounds:
  assumes "0 < a"
  shows "pow2 (floorLog2 a) \<le> a \<and> a < pow2 (floorLog2 a + 1)"
proof (cases "1 \<le> a")
  case True
  define n where "n = nat \<lfloor>a\<rfloor>"
  have n: "0 < n" "of_nat n \<le> a" "a < of_nat n + 1"
    using True by (simp_all add: n_def) linarith+
  have k: "0 < bitLength n"
    using n(1) by (subst bitLength.simps) simp
  have e: "floorLog2 a = int (bitLength n) - 1"
    using True by (simp add: floorLog2_def n_def)
  have "nat (int (bitLength n) - 1) = bitLength n - 1"
    by simp
  then have p: "pow2 (floorLog2 a) = 2 ^ (bitLength n - 1)"
    "pow2 (floorLog2 a + 1) = 2 ^ bitLength n"
    using k by (simp_all add: e pow2_def)
  have "(of_nat (2 ^ (bitLength n - 1)) :: rat) \<le> of_nat n"
    using bitLength_lower [OF n(1)] by (simp only: of_nat_le_iff)
  then have "(2::rat) ^ (bitLength n - 1) \<le> of_nat n"
    by (simp only: of_nat_power of_nat_numeral)
  then have lo: "(2::rat) ^ (bitLength n - 1) \<le> a"
    using n(2) by (rule order_trans)
  have "Suc n \<le> 2 ^ bitLength n"
    using bitLength_upper [of n] by simp
  then have "(of_nat (Suc n) :: rat) \<le> of_nat (2 ^ bitLength n)"
    by (simp only: of_nat_le_iff)
  then have "of_nat n + 1 \<le> (2::rat) ^ bitLength n"
    by (simp only: of_nat_power of_nat_numeral of_nat_Suc)
  with n(3) have hi: "a < (2::rat) ^ bitLength n"
    by (rule less_le_trans)
  from lo hi show ?thesis
    by (simp only: p)
next
  case False
  define m where "m = nat (\<lceil>1 / a\<rceil> - 1)"
  define k where "k = bitLength m"
  have big: "1 < 1 / a"
    using False assms by simp
  then have c: "2 \<le> \<lceil>1 / a\<rceil>"
    by linarith
  then have m: "0 < m" "int m = \<lceil>1 / a\<rceil> - 1"
    unfolding m_def by linarith+
  have e: "floorLog2 a = - int k"
    using False by (simp add: floorLog2_def m_def k_def)
  have k: "0 < k"
    using m(1) unfolding k_def by (subst bitLength.simps) simp
  have "Suc m \<le> 2 ^ k"
    using bitLength_upper [of m] unfolding k_def by simp
  then have "int (Suc m) \<le> int (2 ^ k)"
    by (simp only: of_nat_le_iff)
  then have "int m + 1 \<le> 2 ^ k"
    by simp
  then have "\<lceil>1 / a\<rceil> \<le> 2 ^ k"
    using m(2) by simp
  then have "1 / a \<le> 2 ^ k"
    by (simp add: ceiling_le_iff)
  then have lo: "1 / 2 ^ k \<le> a"
    using assms by (simp add: field_simps)
  have "int (2 ^ (k - 1)) \<le> int m"
    using bitLength_lower [OF m(1)] unfolding k_def by (simp only: of_nat_le_iff)
  then have "(2::int) ^ (k - 1) \<le> int m"
    by simp
  then have "(2::int) ^ (k - 1) < \<lceil>1 / a\<rceil>"
    using m(2) by simp
  then have "(2::rat) ^ (k - 1) < 1 / a"
    by (simp add: less_ceiling_iff)
  then have hi: "a < 1 / 2 ^ (k - 1)"
    using assms by (simp add: field_simps)
  have "nat (int k - 1) = k - 1"
    by simp
  then have "pow2 (- int k + 1) = 1 / 2 ^ (k - 1)"
    using k by (simp add: pow2_def)
  moreover have "pow2 (- int k) = 1 / 2 ^ k"
    using k by (simp add: pow2_def)
  ultimately show ?thesis
    using lo hi by (simp add: e)
qed

lemma roundHalfEven_near: "\<bar>of_int (roundHalfEven x) - x\<bar> \<le> 1 / 2"
proof -
  have "of_int \<lfloor>x\<rfloor> \<le> x" "x < of_int \<lfloor>x\<rfloor> + 1"
    by linarith+
  then show ?thesis
    by (auto simp: roundHalfEven_def)
qed

lemma quantum_pos: "0 < quantum a"
  by (simp add: quantum_def pow2_def)

lemma nearest_near: "\<bar>nearest a - a\<bar> \<le> quantum a / 2"
proof -
  have q: "0 < quantum a"
    by (rule quantum_pos)
  have "nearest a - a = (of_int (roundHalfEven (a / quantum a)) - a / quantum a) * quantum a"
    using q by (simp add: nearest_def field_simps)
  then have "\<bar>nearest a - a\<bar> = \<bar>of_int (roundHalfEven (a / quantum a)) - a / quantum a\<bar> * quantum a"
    using q by (simp add: abs_mult)
  also have "\<dots> \<le> 1 / 2 * quantum a"
    using roundHalfEven_near [of "a / quantum a"] q by (simp only: mult_le_cancel_right_pos)
  finally show ?thesis
    by simp
qed

text \<open>
  The rounding at work: \<^verbatim>\<open>1.001\<close> is not a double, and neither is a thousand times the double
  next to it, so that \<^verbatim>\<open>|t:|1.001\<close> is stamped with the full second; \<^verbatim>\<open>9007199254740993\<close>, which
  lies halfway between two doubles, becomes the even one.
\<close>

lemma floor_numeral_quotient:
  "\<lfloor>numeral a / numeral b :: rat\<rfloor> = numeral a div numeral b"
  using floor_divide_of_int_eq [of "numeral a" "numeral b", where ?'a = rat] by simp

lemma ceiling_numeral_quotient:
  "\<lceil>numeral a / numeral b :: rat\<rceil> = - (- numeral a div numeral b)"
  using ceiling_divide_eq_div [of "numeral a" "numeral b", where ?'a = rat] by simp

lemmas round_eval = round_defs floor_numeral_quotient ceiling_numeral_quotient

lemma round_2_53_1: "roundDouble 9007199254740993 = Finite 9007199254740992"
  by (simp add: round_eval)

lemma round_1_001: "roundDouble (1001 / 1000) = Finite (2254051613498933 / 2251799813685248)"
  by (simp add: round_eval)

lemma round_1_001_ms:
  "roundDouble (281756451687366625 / 281474976710656)
     = Finite (8804889115230207 / 8796093022208)"
  by (simp add: round_eval)

lemma round_tenth: "roundDouble (1 / 10) = Finite (3602879701896397 / 36028797018963968)"
  by (simp add: round_eval)

lemma Number_1_001: "Number ''1.001'' = Finite (2254051613498933 / 2251799813685248)"
  using round_1_001 by (simp add: number_defs)

lemma date_1_001:
  "isoOfSeconds (2254051613498933 / 2251799813685248) = Inr ''1970-01-01T00:00:01.000Z''"
  by (simp add: isoOfSeconds_def mulDouble_def round_1_001_ms date_defs floor_numeral_quotient)

lemma format_fractional:
  "format ''|t:|1.001'' newFormatter =
    (Inr (Some \<lparr>message = ''|t:|1.001'', timestamp = IsoTime ''1970-01-01T00:00:01.000Z'',
                 turn = None, player = None\<rparr>),
     \<lparr>currentTurn = None,
      battleTimestamp = Some (2254051613498933 / 2251799813685248)\<rparr>)"
  by (simp add: format_defs newFormatter_def Number_1_001 date_1_001)

lemma Number_2_53_1: "Number ''9007199254740993'' = Finite 9007199254740992"
  by (simp add: number_defs round_2_53_1)

lemma format_large_turn:
  "format ''|turn|9007199254740993'' newFormatter =
    (Inr (Some \<lparr>message = ''|turn|9007199254740993'', timestamp = CurrentTime,
                 turn = Some 9007199254740992, player = None\<rparr>),
     \<lparr>currentTurn = Some 9007199254740992, battleTimestamp = None\<rparr>)"
  by (simp add: format_defs newFormatter_def Number_2_53_1)

lemma format_t1000:
  "format ''|t:|1000'' newFormatter =
    (Inr (Some \<lparr>message = ''|t:|1000'', timestamp = IsoTime ''1970-01-01T00:16:40.000Z'',
                 turn = None, player = None\<rparr>),
     \<lparr>currentTurn = None, battleTimestamp = Some 1000\<rparr>)"
  by (simp add: format_defs newFormatter_def Number_1000 date_1000)

lemma format_turn5:
  "format ''|turn|5'' \<lparr>currentTurn = None, battleTimestamp = Some 1000\<rparr> =
    (Inr (Some \<lparr>message = ''|turn|5'', timestamp = IsoTime ''1970-01-01T00:16:40.000Z'',
                 turn = Some 5, player = None\<rparr>),
     \<lparr>currentTurn = Some 5, battleTimestamp = Some 1000\<rparr>)"
  by (simp add: format_defs Number_5 date_1000)

lemma format_hello:
  "format ''hello p2 general'' \<lparr>currentTurn = Some 5, battleTimestamp = Some 1000\<rparr> =
    (Inr (Some \<lparr>message = ''hello p2 general'',
                 timestamp = IsoTime ''1970-01-01T00:16:40.000Z'',
                 turn = Some 5, player = Some ''p2''\<rparr>),
     \<lparr>currentTurn = Some 5, battleTimestamp = Some 1000\<rparr>)"
  by (simp add: format_defs date_1000)

lemma reachable_t1000: "reachable \<lparr>currentTurn = None, battleTimestamp = Some 1000\<rparr>"
  by (rule reachable.step [OF reachable.fresh format_t1000])

lemma updated_fields:
  "battleTimestamp (updated t f) =
     (case extractTimestamp t of Some b \<Rightarrow> Some b | None \<Rightarrow> battleTimestamp f)"
  "currentTurn (updated t f) =
     (case extractTurn t of Some n \<Rightarrow> Some n | None \<Rightarrow> currentTurn f)"
  by (simp_all add: updated_def)



lemma slotTokenAt_0: "slotTokenAt (c # d # cs) 0 \<longleftrightarrow> c = CHR ''p'' \<and> d \<in> set ''1234''"
  by (simp add: slotTokenAt_def)

lemma slotTokenAt_Suc: "slotTokenAt (c # cs) (Suc i) \<longleftrightarrow> slotTokenAt cs i"
  by (simp add: slotTokenAt_def)

lemma extractPlayer_first:
  "slotTokenAt s i \<Longrightarrow> (\<forall>j<i. \<not> slotTokenAt s j) \<Longrightarrow>
   extractPlayer s = Some [CHR ''p'', s ! Suc i]"
proof (induction s arbitrary: i rule: extractPlayer.induct)
  case (1 c d cs)
  show ?case
  proof (cases "c = CHR ''p'' \<and> d \<in> set ''1234''")
    case True
    then have "slotTokenAt (c # d # cs) 0"
      by (simp add: slotTokenAt_0)
    with "1.prems"(2) have "i = 0"
      by (cases i) auto
    with True show ?thesis
      by simp
  next
    case False
    then have n0: "\<not> slotTokenAt (c # d # cs) 0"
      by (simp add: slotTokenAt_0)
    with "1.prems"(1) obtain k where k: "i = Suc k"
      by (cases i) auto
    have a: "slotTokenAt (d # cs) k"
      using "1.prems"(1) by (simp add: k slotTokenAt_Suc)
    have b: "\<forall>j<k. \<not> slotTokenAt (d # cs) j"
    proof (intro allI impI)
      fix j assume "j < k"
      then have "\<not> slotTokenAt (c # d # cs) (Suc j)"
        using "1.prems"(2) k by simp
      then show "\<not> slotTokenAt (d # cs) j"
        by (simp add: slotTokenAt_Suc)
    qed
    from "1.IH" [OF False a b] False show ?thesis
      by (auto simp: k)
  qed
qed (simp_all add: slotTokenAt_def)

lemma extractPlayer_none: "(\<forall>i. \<not> slotTokenAt s i) \<Longrightarrow> extractPlayer s = None"
proof (induction s rule: extractPlayer.induct)
  case (1 c d cs)
  from "1.prems" have n0: "\<not> (c = CHR ''p'' \<and> d \<in> set ''1234'')"
    using slotTokenAt_0 [of c d cs] by blast
  have "\<forall>i. \<not> slotTokenAt (d # cs) i"
    using "1.prems" slotTokenAt_Suc [of c "d # cs"] by blast
  from "1.IH" [OF n0 this] n0 show ?case
    by simp
qed simp_all

section \<open>Properties of the read side\<close>

text \<open>
  Claim C5 (carry-forward). A new formatter given \<^verbatim>\<open>|t:|1000\<close>, \<^verbatim>\<open>|turn|5\<close> and
  \<^verbatim>\<open>hello p2 general\<close> in this order returns three records: the first without turn and with
  the timestamp \<^verbatim>\<open>1970-01-01T00:16:40.000Z\<close>, 1000 seconds after the epoch; the second with
  that timestamp and turn 5; the third with that timestamp, turn 5 and player \<^verbatim>\<open>p2\<close>;
  \<^verbatim>\<open>pipeJsonOutput\<close> writes just these three for a chunk made of the three lines. In
  general a call of \<^verbatim>\<open>format\<close> never resets a stored timestamp or turn, leaves each as it
  is unless the line announces a new one, and the record it returns carries the turn stored
  after the call and the timestamp made from the battle timestamp stored after the call
  (the wall clock's when none is stored).
\<close>

theorem carry_forward:
  "format ''|t:|1000'' newFormatter =
     (Inr (Some \<lparr>message = ''|t:|1000'', timestamp = IsoTime ''1970-01-01T00:16:40.000Z'',
                  turn = None, player = None\<rparr>),
      \<lparr>currentTurn = None, battleTimestamp = Some 1000\<rparr>)
   \<and> format ''|turn|5'' \<lparr>currentTurn = None, battleTimestamp = Some 1000\<rparr> =
     (Inr (Some \<lparr>message = ''|turn|5'', timestamp = IsoTime ''1970-01-01T00:16:40.000Z'',
                  turn = Some 5, player = None\<rparr>),
      \<lparr>currentTurn = Some 5, battleTimestamp = Some 1000\<rparr>)
   \<and> format ''hello p2 general'' \<lparr>currentTurn = Some 5, battleTimestamp = Some 1000\<rparr> =
     (Inr (Some \<lparr>message = ''hello p2 general'',
                  timestamp = IsoTime ''1970-01-01T00:16:40.000Z'',
                  turn = Some 5, player = Some ''p2''\<rparr>),
      \<lparr>currentTurn = Some 5, battleTimestamp = Some 1000\<rparr>)
   \<and> pipeJsonOutput [''|t:|1000\<newline>|turn|5\<newline>hello p2 general\<newline>''] =
     ([\<lparr>message = ''|t:|1000'', timestamp = IsoTime ''1970-01-01T00:16:40.000Z'',
        turn = None, player = None\<rparr>,
       \<lparr>message = ''|turn|5'', timestamp = IsoTime ''1970-01-01T00:16:40.000Z'',
        turn = Some 5, player = None\<rparr>,
       \<lparr>message = ''hello p2 general'', timestamp = IsoTime ''1970-01-01T00:16:40.000Z'',
        turn = Some 5, player = Some ''p2''\<rparr>], None)
   \<and> (battleTimestamp f \<noteq> None \<longrightarrow> battleTimestamp (snd (format msg f)) \<noteq> None)
   \<and> (currentTurn f \<noteq> None \<longrightarrow> currentTurn (snd (format msg f)) \<noteq> None)
   \<and> (extractTimestamp (trim msg) = None \<longrightarrow>
        battleTimestamp (snd (format msg f)) = battleTimestamp f)
   \<and> (extractTurn (trim msg) = None \<longrightarrow> currentTurn (snd (format msg f)) = currentTurn f)
   \<and> (format msg f = (Inr (Some e), f') \<longrightarrow>
        turn e = currentTurn f'
        \<and> (case battleTimestamp f' of
              None \<Rightarrow> Inr CurrentTime
            | Some b \<Rightarrow> map_sum id IsoTime (isoOfSeconds b)) = Inr (timestamp e))"
proof -
  have A: "battleTimestamp f \<noteq> None \<longrightarrow> battleTimestamp (snd (format msg f)) \<noteq> None"
    by (auto simp: format_state updated_fields split: option.splits)
  have B: "currentTurn f \<noteq> None \<longrightarrow> currentTurn (snd (format msg f)) \<noteq> None"
    by (auto simp: format_state updated_fields split: option.splits)
  have C: "extractTimestamp (trim msg) = None \<longrightarrow>
        battleTimestamp (snd (format msg f)) = battleTimestamp f"
    by (simp add: format_state updated_fields)
  have D: "extractTurn (trim msg) = None \<longrightarrow> currentTurn (snd (format msg f)) = currentTurn f"
    by (simp add: format_state updated_fields)
  have E: "format msg f = (Inr (Some e), f') \<longrightarrow>
        turn e = currentTurn f'
        \<and> (case battleTimestamp f' of
              None \<Rightarrow> Inr CurrentTime
            | Some b \<Rightarrow> map_sum id IsoTime (isoOfSeconds b)) = Inr (timestamp e)"
  proof
    assume a: "format msg f = (Inr (Some e), f')"
    from format_Some(3) [OF a] format_Some(5) [OF a]
    show "turn e = currentTurn f'
        \<and> (case battleTimestamp f' of
              None \<Rightarrow> Inr CurrentTime
            | Some b \<Rightarrow> map_sum id IsoTime (isoOfSeconds b)) = Inr (timestamp e)"
      by (simp add: stampOf_def)
  qed
  have P: "pipeJsonOutput [''|t:|1000\<newline>|turn|5\<newline>hello p2 general\<newline>''] =
     ([\<lparr>message = ''|t:|1000'', timestamp = IsoTime ''1970-01-01T00:16:40.000Z'',
        turn = None, player = None\<rparr>,
       \<lparr>message = ''|turn|5'', timestamp = IsoTime ''1970-01-01T00:16:40.000Z'',
        turn = Some 5, player = None\<rparr>,
       \<lparr>message = ''hello p2 general'', timestamp = IsoTime ''1970-01-01T00:16:40.000Z'',
        turn = Some 5, player = Some ''p2''\<rparr>], None)"
    by (simp add: pipeJsonOutput_def newline_def newFormatter_def
          format_t1000 [unfolded newFormatter_def] format_turn5 format_hello)
  from format_t1000 format_turn5 format_hello P A B C D E show ?thesis
    by blast
qed

theorem carry_forward_witness:
  "battleTimestamp \<lparr>currentTurn = Some 5, battleTimestamp = Some 1000\<rparr> \<noteq> None
   \<and> battleTimestamp (snd (format ''hello p2 general''
          \<lparr>currentTurn = Some 5, battleTimestamp = Some 1000\<rparr>)) = Some 1000
   \<and> currentTurn \<lparr>currentTurn = Some 5, battleTimestamp = Some 1000\<rparr> \<noteq> None
   \<and> extractTimestamp (trim ''hello p2 general'') = None
   \<and> extractTurn (trim ''hello p2 general'') = None
   \<and> currentTurn (snd (format ''hello p2 general''
          \<lparr>currentTurn = Some 5, battleTimestamp = Some 1000\<rparr>)) = Some 5
   \<and> format ''hello p2 general'' \<lparr>currentTurn = Some 5, battleTimestamp = Some 1000\<rparr> =
        (Inr (Some \<lparr>message = ''hello p2 general'',
                     timestamp = IsoTime ''1970-01-01T00:16:40.000Z'',
                     turn = Some 5, player = Some ''p2''\<rparr>),
         \<lparr>currentTurn = Some 5, battleTimestamp = Some 1000\<rparr>)
   \<and> map_sum id IsoTime (isoOfSeconds 1000) = Inr (IsoTime ''1970-01-01T00:16:40.000Z'')"
  using carry_forward [of "\<lparr>currentTurn = Some 5, battleTimestamp = Some 1000\<rparr>"
      "''hello p2 general''"
      "\<lparr>message = ''hello p2 general'', timestamp = IsoTime ''1970-01-01T00:16:40.000Z'',
        turn = Some 5, player = Some ''p2''\<rparr>"
      "\<lparr>currentTurn = Some 5, battleTimestamp = Some 1000\<rparr>"]
  by (simp add: trim_def isWhiteSpace_def extractTimestamp_def extractTurn_def)

text \<open>
  Claim C6 (malformed timestamp), as stated for every state of a formatter, fails: the
  call for \<^verbatim>\<open>|t:|8640000000001\<close> stores that timestamp and then throws a RangeError, since
  no date lies that far from the epoch; in the state it leaves, the call for
  \<^verbatim>\<open>|t:|notanumber\<close> gives no record but throws again.
\<close>

theorem malformed_timestamp_counterexample:
  "format ''|t:|8640000000001'' newFormatter =
     (Inl RangeError, \<lparr>currentTurn = None, battleTimestamp = Some 8640000000001\<rparr>)
   \<and> format ''|t:|notanumber'' \<lparr>currentTurn = None, battleTimestamp = Some 8640000000001\<rparr> =
     (Inl RangeError, \<lparr>currentTurn = None, battleTimestamp = Some 8640000000001\<rparr>)"
  by (simp add: format_defs newFormatter_def Number_8640000000001 Number_notanumber
        date_8640000000001)

text \<open>
  Claim C6, amended. In every state of a formatter, a line that after trimming starts with
  \<^verbatim>\<open>|t:|\<close> and whose rest \<^verbatim>\<open>Number\<close> does not turn into a finite number (\<^verbatim>\<open>|t:|notanumber\<close> is
  one) leaves the stored timestamp and turn as they are. The call gives a record whose
  timestamp is made from the stored battle timestamp, or is the wall clock's when none is
  stored; only when the stored timestamp has no date does it throw the RangeError of that
  conversion instead. In a state reached through calls that returned it never throws.
\<close>

theorem malformed_timestamp:
  assumes "startsWith (trim msg) ''|t:|''"
    and "finiteValue (Number (drop 4 (trim msg))) = None"
  shows "format msg f =
           (case (case battleTimestamp f of
                    None \<Rightarrow> Inr CurrentTime
                  | Some b \<Rightarrow> map_sum id IsoTime (isoOfSeconds b)) of
              Inl err \<Rightarrow> (Inl err, f)
            | Inr ts \<Rightarrow>
                (Inr (Some \<lparr>message = trim msg, timestamp = ts, turn = currentTurn f,
                            player = extractPlayer (trim msg)\<rparr>), f))
       \<and> snd (format msg f) = f
       \<and> (reachable f \<longrightarrow> fst (format msg f) \<noteq> Inl RangeError)"
proof -
  obtain rest where t: "trim msg = ''|t:|'' @ rest"
    using assms(1) by (auto simp only: startsWith_iff)
  have d: "\<not> discarded msg"
    by (simp add: discarded_def t)
  have ts: "extractTimestamp (trim msg) = None"
    using assms by (simp add: extractTimestamp_def)
  have "extractTurn (trim msg) = None"
    unfolding extractTurn_def t split_timestamp_line by (simp add: Let_def)
  then have u: "updated (trim msg) f = f"
    using ts by (simp add: updated_def)
  have A: "format msg f =
           (case (case battleTimestamp f of
                    None \<Rightarrow> Inr CurrentTime
                  | Some b \<Rightarrow> map_sum id IsoTime (isoOfSeconds b)) of
              Inl err \<Rightarrow> (Inl err, f)
            | Inr ts \<Rightarrow>
                (Inr (Some \<lparr>message = trim msg, timestamp = ts, turn = currentTurn f,
                            player = extractPlayer (trim msg)\<rparr>), f))"
    using format_same_timestamp [OF d ts, of f] by (simp only: u stampOf_def)
  have B: "snd (format msg f) = f"
    using d u by (simp add: format_state)
  have C: "reachable f \<longrightarrow> fst (format msg f) \<noteq> Inl RangeError"
  proof
    assume "reachable f"
    then have ok: "stampOf f \<noteq> Inl RangeError"
      by (rule reachable_stamp)
    show "fst (format msg f) \<noteq> Inl RangeError"
    proof (cases "stampOf f")
      case (Inl err)
      with ok show ?thesis
        by (cases err) simp
    next
      case (Inr stamp)
      then show ?thesis
        using format_same_timestamp [OF d ts, of f] by simp
    qed
  qed
  from A B C show ?thesis
    by blast
qed

theorem malformed_timestamp_witness:
  "startsWith (trim ''|t:|notanumber'') ''|t:|''
   \<and> finiteValue (Number (drop 4 (trim ''|t:|notanumber''))) = None
   \<and> reachable \<lparr>currentTurn = None, battleTimestamp = Some 1000\<rparr>
   \<and> format ''|t:|notanumber'' \<lparr>currentTurn = None, battleTimestamp = Some 1000\<rparr> =
       (Inr (Some \<lparr>message = ''|t:|notanumber'',
                    timestamp = IsoTime ''1970-01-01T00:16:40.000Z'',
                    turn = None, player = None\<rparr>),
        \<lparr>currentTurn = None, battleTimestamp = Some 1000\<rparr>)
   \<and> format ''|t:|notanumber'' newFormatter =
       (Inr (Some \<lparr>message = ''|t:|notanumber'', timestamp = CurrentTime,
                    turn = None, player = None\<rparr>), newFormatter)"
proof -
  have t: "trim ''|t:|notanumber'' = ''|t:|notanumber''"
    by (simp add: trim_def isWhiteSpace_def)
  have s: "startsWith (trim ''|t:|notanumber'') ''|t:|''"
    by (simp add: t)
  have n: "finiteValue (Number (drop 4 (trim ''|t:|notanumber''))) = None"
    by (simp add: t Number_notanumber finiteValue_def)
  have a: "format ''|t:|notanumber'' \<lparr>currentTurn = None, battleTimestamp = Some 1000\<rparr> =
       (Inr (Some \<lparr>message = ''|t:|notanumber'',
                    timestamp = IsoTime ''1970-01-01T00:16:40.000Z'',
                    turn = None, player = None\<rparr>),
        \<lparr>currentTurn = None, battleTimestamp = Some 1000\<rparr>)"
    using malformed_timestamp [OF s n, of "\<lparr>currentTurn = None, battleTimestamp = Some 1000\<rparr>"]
    by (simp add: t date_1000)
  have b: "format ''|t:|notanumber'' newFormatter =
       (Inr (Some \<lparr>message = ''|t:|notanumber'', timestamp = CurrentTime,
                    turn = None, player = None\<rparr>), newFormatter)"
    using malformed_timestamp [OF s n, of newFormatter] by (simp add: t newFormatter_def)
  from reachable_t1000 s n a b show ?thesis
    by blast
qed




text \<open>
  Claim C9 (the player of a record). Whenever \<^verbatim>\<open>format\<close> returns a record, its player is
  the first place in the trimmed line where \<^verbatim>\<open>p\<close> is followed by a digit from 1 to 4,
  also inside a longer word and also for \<^verbatim>\<open>p3\<close> and \<^verbatim>\<open>p4\<close>, and it is absent when there is
  no such place. It is the same in every state of the formatter.
\<close>

theorem player_first_match:
  assumes "format msg f = (Inr (Some e), f')"
  shows "(\<forall>i. slotTokenAt (trim msg) i \<and> (\<forall>j<i. \<not> slotTokenAt (trim msg) j)
              \<longrightarrow> player e = Some [CHR ''p'', trim msg ! Suc i])
       \<and> ((\<forall>i. \<not> slotTokenAt (trim msg) i) \<longrightarrow> player e = None)"
  using format_Some(6) [OF assms] extractPlayer_first [of "trim msg"]
    extractPlayer_none [of "trim msg"]
  by simp

theorem player_first_match_witness:
  "format '' mp3 p1 '' newFormatter =
     (Inr (Some \<lparr>message = ''mp3 p1'', timestamp = CurrentTime,
                  turn = None, player = Some ''p3''\<rparr>), newFormatter)
   \<and> slotTokenAt (trim '' mp3 p1 '') 1
   \<and> \<not> slotTokenAt (trim '' mp3 p1 '') 0
   \<and> player \<lparr>message = ''mp3 p1'', timestamp = CurrentTime,
               turn = None, player = Some ''p3''\<rparr> = Some [CHR ''p'', trim '' mp3 p1 '' ! Suc 1]"
proof -
  have t: "trim '' mp3 p1 '' = ''mp3 p1''"
    by (simp add: trim_def isWhiteSpace_def)
  have f: "format '' mp3 p1 '' newFormatter =
     (Inr (Some \<lparr>message = ''mp3 p1'', timestamp = CurrentTime,
                  turn = None, player = Some ''p3''\<rparr>), newFormatter)"
    by (simp add: format_defs newFormatter_def)
  have s: "slotTokenAt (trim '' mp3 p1 '') 1"
    by (simp add: t slotTokenAt_def)
  have n: "\<forall>j<1. \<not> slotTokenAt (trim '' mp3 p1 '') j"
    by (simp add: t slotTokenAt_def)
  from player_first_match [OF f] s n
  have "player \<lparr>message = ''mp3 p1'', timestamp = CurrentTime,
               turn = None, player = Some ''p3''\<rparr> = Some [CHR ''p'', trim '' mp3 p1 '' ! Suc 1]"
    by blast
  moreover have "\<not> slotTokenAt (trim '' mp3 p1 '') 0"
    using n by simp
  ultimately show ?thesis
    using f s by blast
qed

section \<open>Lemmas about the entry point\<close>

lemma filter_session_ConsoleError [simp]: "filter isSessionEvent (map ConsoleError msgs) = []"
  by (induction msgs) auto

lemma fatal_fatalStep [simp]: "fatalStep (fatal msgs)"
  by (simp add: fatalStep_def fatal_def)

lemma fatalStep_okStep: "fatalStep m \<Longrightarrow> okStep m"
  by (simp add: fatalStep_def okStep_def)

lemma okStep_value [simp]: "okStep (es, Some a) = (filter isSessionEvent es = [])"
  by (simp add: okStep_def)

lemma andThen_fatal:
  assumes "okStep m" and "\<And>a. snd m = Some a \<Longrightarrow> fatalStep (k a)"
  shows "fatalStep (andThen m k)"
proof (cases m)
  case (Pair es r)
  show ?thesis
  proof (cases r)
    case None
    with Pair assms(1) show ?thesis
      by (simp add: andThen_def okStep_def fatalStep_def)
  next
    case (Some a)
    with Pair assms(2) [of a] have "fatalStep (k a)"
      by simp
    with Pair Some assms(1) show ?thesis
      by (cases "k a") (auto simp: andThen_def okStep_def fatalStep_def)
  qed
qed

lemma andThen_ok:
  assumes "okStep m" and "\<And>a. snd m = Some a \<Longrightarrow> okStep (k a)"
  shows "okStep (andThen m k)"
proof (cases m)
  case (Pair es r)
  show ?thesis
  proof (cases r)
    case None
    with Pair assms(1) show ?thesis
      by (simp add: andThen_def okStep_def)
  next
    case (Some a)
    with Pair assms(2) [of a] have "okStep (k a)"
      by simp
    with Pair Some assms(1) show ?thesis
      by (cases "k a") (auto simp: andThen_def okStep_def)
  qed
qed

lemma parseLogFormat_ok: "okStep (parseLogFormat x)"
  by (auto simp: parseLogFormat_def Let_def fatalStep_okStep split: optval.splits)

lemma parseSeed_ok: "okStep (parseSeed E x)"
  by (auto simp: parseSeed_def Let_def fatalStep_okStep split: optval.splits sum.splits)

lemma openOutput_ok: "okStep (openOutput v)"
  by (auto simp: openOutput_def openLogFile_def fatalStep_okStep)

lemma loadTeamFromFile_ok: "okStep (loadTeamFromFile E path slot)"
  unfolding loadTeamFromFile_def Let_def
  by (auto intro!: andThen_ok simp: fatalStep_okStep split: sum.splits option.splits)

lemma loadTeamFromFile_value:
  "snd (loadTeamFromFile E path slot) = Some packed \<Longrightarrow> packed \<noteq> []"
  by (auto simp: loadTeamFromFile_def Let_def andThen_def fatal_def
        split: sum.splits option.splits if_splits prod.splits)

lemma loadSlot_ok: "okStep (loadSlot E v slot teams)"
  unfolding loadSlot_def
  by (auto intro!: andThen_ok loadTeamFromFile_ok)

lemma loadSlot_value:
  assumes "snd (loadSlot E v slot teams) = Some teams'"
  shows "truthy (teams' slot) = (truthy (teamOption v slot) \<or> truthy (teams slot))"
    and "\<And>other. other \<noteq> slot \<Longrightarrow> teams' other = teams other"
proof -
  show "truthy (teams' slot) = (truthy (teamOption v slot) \<or> truthy (teams slot))"
  proof (cases "truthy (teamOption v slot)")
    case True
    with assms obtain packed where
      "snd (loadTeamFromFile E (the (teamOption v slot)) slot) = Some packed"
      "teams' = teams(slot \<mapsto> packed)"
      by (auto simp: loadSlot_def andThen_def split: prod.splits option.splits)
    with True loadTeamFromFile_value show ?thesis
      by (auto simp: truthy_def)
  next
    case False
    with assms show ?thesis
      by (simp add: loadSlot_def)
  qed
  show "\<And>other. other \<noteq> slot \<Longrightarrow> teams' other = teams other"
    using assms
    by (auto simp: loadSlot_def andThen_def split: prod.splits option.splits if_splits)
qed

lemma loadTeams_ok: "okStep (loadTeams E v)"
  unfolding loadTeams_def by (auto intro!: andThen_ok loadSlot_ok)

lemma andThen_value:
  "snd (andThen m k) = Some b \<Longrightarrow> \<exists>a. snd m = Some a \<and> snd (k a) = Some b"
  by (cases m) (auto simp: andThen_def split: option.splits prod.splits)

lemma loadTeams_value:
  assumes "snd (loadTeams E v) = Some teams"
  shows "truthy (teams P1) = truthy (opt_p1_team_file v)"
    and "truthy (teams P2) = truthy (opt_p2_team_file v)"
proof -
  from assms obtain t1 where
    a: "snd (loadSlot E v P1 Map.empty) = Some t1" and b: "snd (loadSlot E v P2 t1) = Some teams"
    unfolding loadTeams_def by (blast dest: andThen_value)
  from loadSlot_value [OF a] loadSlot_value [OF b]
  show "truthy (teams P1) = truthy (opt_p1_team_file v)"
    and "truthy (teams P2) = truthy (opt_p2_team_file v)"
    by (simp_all add: teamOption_def truthy_def)
qed

lemma main_fatal:
  assumes "fatalStep
     (andThen (parseLogFormat (opt_log_format v)) (\<lambda>logFormat.
          andThen (parseSeed E (opt_seed v)) (\<lambda>seed.
          andThen (openOutput v) (\<lambda>_.
          andThen (loadTeams E v) (\<lambda>teams.
            if isTrue (opt_interactive_stdin v) \<and> (truthy (teams P1) \<or> truthy (teams P2))
            then fatal [''Team file options cannot be combined with --interactive-stdin.'']
            else (startSession v logFormat (parseReplayOption (opt_replay v)) seed
                    (isTrue (opt_interactive_stdin v)) teams, Some ()))))))"
  shows "last (main E v) = Exit 1 \<and> filter isSessionEvent (main E v) = []"
  using assms by (simp add: main_def fatalStep_def)

lemma andThen_Some: "snd m = Some a \<Longrightarrow> andThen m k = (fst m @ fst (k a), snd (k a))"
  by (cases m) (simp add: andThen_def split_beta)

lemma andThen_None: "snd m = None \<Longrightarrow> andThen m k = (fst m, None)"
  by (cases m) (simp add: andThen_def)

lemma parseLogFormat_silent: "snd (parseLogFormat x) = Some a \<Longrightarrow> fst (parseLogFormat x) = []"
  by (auto simp: parseLogFormat_def Let_def fatal_def split: optval.splits if_splits)

lemma parseSeed_silent: "snd (parseSeed E x) = Some a \<Longrightarrow> fst (parseSeed E x) = []"
  by (auto simp: parseSeed_def Let_def fatal_def split: optval.splits if_splits sum.splits)

lemma openOutput_value: "snd (openOutput v) = Some ()"
  by (auto simp: openOutput_def openLogFile_def truthy_def split: option.splits)

lemmas step_defs = andThen_def fatal_def parseLogFormat_def parseSeed_def
  openOutput_def openLogFile_def loadTeams_def loadSlot_def
  loadTeamFromFile_def teamOption_def isTrue_def truthy_def
  toLowerCase_def lowerChar_def LOG_FORMATS_def trim_def isWhiteSpace_def
  exampleEnv_def exampleValues_def

lemmas main_defs = main_def andThen_def fatal_def parseLogFormat_def parseSeed_def
  parseReplayOption_def openOutput_def openLogFile_def loadTeams_def loadSlot_def
  loadTeamFromFile_def teamOption_def startSession_def isTrue_def truthy_def
  toLowerCase_def lowerChar_def LOG_FORMATS_def trim_def isWhiteSpace_def
  exampleEnv_def exampleValues_def

section \<open>Properties of the entry point\<close>

text \<open>
  Claim C8 (conflicting options are fatal before the session), as stated, fails in two ways.
  With \<^verbatim>\<open>--interactive-stdin\<close> and an empty \<^verbatim>\<open>--p1-team-file\<close> the option counts as absent and
  the session starts. With \<^verbatim>\<open>--interactive-stdin\<close> and a team file that cannot be read the
  process ends with the message of the failed read, not with the one of the conflict.
\<close>

theorem conflict_fatal_counterexample:
  "main exampleEnv (exampleValues\<lparr>opt_interactive_stdin := Some True, opt_p1_team_file := Some []\<rparr>)
     = [IncludeFormats, Stdout, NewBattleStream False False False ReplayFalse None,
        PipeStdinToStream, PipeToOutput]
   \<and> main exampleEnv
        (exampleValues\<lparr>opt_interactive_stdin := Some True, opt_p1_team_file := Some ''b.txt''\<rparr>)
     = [IncludeFormats, Stdout, ReadFileSync ''b.txt'',
        ConsoleError ''Failed to read team file for P1 at b.txt.'', ConsoleError ''ENOENT'',
        Exit 1]"
  by (simp add: main_defs)

text \<open>
  Claim C8, amended. With \<^verbatim>\<open>--interactive-stdin\<close> and a non-empty team file path for a slot,
  \<^verbatim>\<open>main\<close> always ends the process with \<^verbatim>\<open>process.exit(1)\<close> and never constructs the battle
  stream or starts a pipe. After \<^verbatim>\<open>Dex.includeFormats()\<close> it checks the log format, checks the
  seed, opens the output and loads the team files, in this order; what it does is what
  these steps do up to the first of them that ends the process, whose messages are then the
  diagnostic, and when none of them does, the message of the conflict and the exit. An
  unknown log format ends the process with its message right after
  \<^verbatim>\<open>Dex.includeFormats()\<close>, and so does a seed string that is empty after trimming, once the
  log format is accepted.
\<close>

theorem conflict_fatal_before_session:
  "(isTrue (opt_interactive_stdin v)
      \<and> (truthy (opt_p1_team_file v) \<or> truthy (opt_p2_team_file v))
     \<longrightarrow> last (main E v) = Exit 1 \<and> filter isSessionEvent (main E v) = []
         \<and> main E v =
             IncludeFormats # fst (parseLogFormat (opt_log_format v))
               @ (if snd (parseLogFormat (opt_log_format v)) = None then []
                  else fst (parseSeed E (opt_seed v))
                    @ (if snd (parseSeed E (opt_seed v)) = None then []
                       else fst (openOutput v) @ fst (loadTeams E v)
                         @ (if snd (loadTeams E v) = None then []
                            else [ConsoleError
                                    ''Team file options cannot be combined with --interactive-stdin.'',
                                  Exit 1]))))
   \<and> (snd (parseLogFormat (opt_log_format v)) = None
        \<longrightarrow> last (fst (parseLogFormat (opt_log_format v))) = Exit 1)
   \<and> (snd (parseSeed E (opt_seed v)) = None \<longrightarrow> last (fst (parseSeed E (opt_seed v))) = Exit 1)
   \<and> (snd (loadTeams E v) = None \<longrightarrow> last (fst (loadTeams E v)) = Exit 1)
   \<and> (opt_log_format v = Str s \<and> toLowerCase s \<notin> set LOG_FORMATS
     \<longrightarrow> main E v =
           [IncludeFormats,
            ConsoleError (''Unknown log format '' @ [CHR 0x22] @ s @ [CHR 0x22]
                            @ ''. Supported formats: text, json.''),
            Exit 1])
   \<and> (opt_seed v = Str s' \<and> trim s' = [] \<and> snd (parseLogFormat (opt_log_format v)) \<noteq> None
     \<longrightarrow> main E v = [IncludeFormats, ConsoleError ''Seed cannot be an empty string.'', Exit 1])"
proof -
  let ?L = "parseLogFormat (opt_log_format v)"
  let ?S = "parseSeed E (opt_seed v)"
  let ?T = "loadTeams E v"
  have A: "last (main E v) = Exit 1 \<and> filter isSessionEvent (main E v) = []"
    if i: "isTrue (opt_interactive_stdin v)"
      and t: "truthy (opt_p1_team_file v) \<or> truthy (opt_p2_team_file v)"
  proof (rule main_fatal, intro andThen_fatal parseLogFormat_ok parseSeed_ok openOutput_ok
      loadTeams_ok)
    fix logFormat seed u teams
    assume "snd (loadTeams E v) = Some teams"
    from loadTeams_value [OF this] i t
    show "fatalStep
        (if isTrue (opt_interactive_stdin v) \<and> (truthy (teams P1) \<or> truthy (teams P2))
         then fatal [''Team file options cannot be combined with --interactive-stdin.'']
         else (startSession v logFormat (parseReplayOption (opt_replay v)) seed
                 (isTrue (opt_interactive_stdin v)) teams, Some ()))"
      by simp
  qed
  have B: "main E v =
             IncludeFormats # fst ?L
               @ (if snd ?L = None then []
                  else fst ?S
                    @ (if snd ?S = None then []
                       else fst (openOutput v) @ fst ?T
                         @ (if snd ?T = None then []
                            else [ConsoleError
                                    ''Team file options cannot be combined with --interactive-stdin.'',
                                  Exit 1])))"
    if i: "isTrue (opt_interactive_stdin v)"
      and t: "truthy (opt_p1_team_file v) \<or> truthy (opt_p2_team_file v)"
  proof (cases "snd ?L")
    case None
    then show ?thesis
      unfolding main_def by (simp add: andThen_None)
  next
    case (Some lf)
    note lf = Some
    show ?thesis
    proof (cases "snd ?S")
      case None
      then show ?thesis
        unfolding main_def by (simp add: andThen_Some [OF lf] andThen_None lf)
    next
      case (Some seed)
      note seed = Some
      show ?thesis
      proof (cases "snd ?T")
        case None
        then show ?thesis
          unfolding main_def
          by (simp add: andThen_Some [OF lf] andThen_Some [OF seed]
                andThen_Some [OF openOutput_value] andThen_None lf seed)
      next
        case (Some teams)
        have c: "isTrue (opt_interactive_stdin v) \<and> (truthy (teams P1) \<or> truthy (teams P2))"
          using loadTeams_value [OF Some] i t by simp
        show ?thesis
          unfolding main_def
          by (simp add: andThen_Some [OF lf] andThen_Some [OF seed]
                andThen_Some [OF openOutput_value] andThen_Some [OF Some] lf seed Some c
                fatal_def)
      qed
    qed
  qed
  have F: "snd ?L = None \<longrightarrow> last (fst ?L) = Exit 1"
    "snd ?S = None \<longrightarrow> last (fst ?S) = Exit 1"
    "snd ?T = None \<longrightarrow> last (fst ?T) = Exit 1"
    using parseLogFormat_ok [of "opt_log_format v"] parseSeed_ok [of E "opt_seed v"]
      loadTeams_ok [of E v]
    by (simp_all add: okStep_def)
  have C: "main E v =
           [IncludeFormats,
            ConsoleError (''Unknown log format '' @ [CHR 0x22] @ s @ [CHR 0x22]
                            @ ''. Supported formats: text, json.''),
            Exit 1]"
    if "opt_log_format v = Str s" and "toLowerCase s \<notin> set LOG_FORMATS"
    using that by (simp add: main_def parseLogFormat_def Let_def fatal_def andThen_def)
  have D: "main E v = [IncludeFormats, ConsoleError ''Seed cannot be an empty string.'', Exit 1]"
    if sd: "opt_seed v = Str s'" "trim s' = []"
      and l: "snd ?L \<noteq> None"
  proof -
    from l obtain lf where lf: "snd ?L = Some lf" by auto
    have "?S = fatal [''Seed cannot be an empty string.'']"
      using sd by (simp add: parseSeed_def)
    then show ?thesis
      unfolding main_def
      by (simp add: andThen_Some [OF lf] parseLogFormat_silent [OF lf] andThen_None fatal_def)
  qed
  from A B F C D show ?thesis
    by blast
qed

theorem conflict_fatal_before_session_witness:
  "isTrue (opt_interactive_stdin
       (exampleValues\<lparr>opt_interactive_stdin := Some True, opt_p1_team_file := Some ''a.txt''\<rparr>))
   \<and> truthy (opt_p1_team_file
       (exampleValues\<lparr>opt_interactive_stdin := Some True, opt_p1_team_file := Some ''a.txt''\<rparr>))
   \<and> main exampleEnv
        (exampleValues\<lparr>opt_interactive_stdin := Some True, opt_p1_team_file := Some ''a.txt''\<rparr>)
     = [IncludeFormats, Stdout, ReadFileSync ''a.txt'',
        ConsoleError ''Team file options cannot be combined with --interactive-stdin.'', Exit 1]
   \<and> main exampleEnv
        (exampleValues\<lparr>opt_interactive_stdin := Some True, opt_p1_team_file := Some ''b.txt''\<rparr>)
     = [IncludeFormats, Stdout, ReadFileSync ''b.txt'',
        ConsoleError ''Failed to read team file for P1 at b.txt.'', ConsoleError ''ENOENT'',
        Exit 1]
   \<and> main exampleEnv
        (exampleValues\<lparr>opt_interactive_stdin := Some True, opt_p1_team_file := Some ''a.txt'',
                         opt_seed := Str ''bad''\<rparr>)
     = [IncludeFormats,
        ConsoleError (''Invalid seed '' @ [CHR 0x22] @ ''bad'' @ [CHR 0x22] @ ''.''),
        ConsoleError ''not a seed'', Exit 1]
   \<and> main exampleEnv (exampleValues\<lparr>opt_log_format := Str ''XML''\<rparr>)
     = [IncludeFormats,
        ConsoleError (''Unknown log format '' @ [CHR 0x22] @ ''XML'' @ [CHR 0x22]
                        @ ''. Supported formats: text, json.''),
        Exit 1]
   \<and> main exampleEnv (exampleValues\<lparr>opt_seed := Str ''  ''\<rparr>)
     = [IncludeFormats, ConsoleError ''Seed cannot be an empty string.'', Exit 1]"
proof -
  let ?a = "exampleValues\<lparr>opt_interactive_stdin := Some True, opt_p1_team_file := Some ''a.txt''\<rparr>"
  let ?b = "exampleValues\<lparr>opt_interactive_stdin := Some True, opt_p1_team_file := Some ''b.txt''\<rparr>"
  let ?c = "exampleValues\<lparr>opt_interactive_stdin := Some True, opt_p1_team_file := Some ''a.txt'',
                         opt_seed := Str ''bad''\<rparr>"
  have i: "isTrue (opt_interactive_stdin ?a)" "isTrue (opt_interactive_stdin ?b)"
    "isTrue (opt_interactive_stdin ?c)"
    by (simp_all add: isTrue_def)
  have t: "truthy (opt_p1_team_file ?a)" "truthy (opt_p1_team_file ?b)"
    "truthy (opt_p1_team_file ?c)"
    by (simp_all add: truthy_def)
  have a: "main exampleEnv ?a
     = [IncludeFormats, Stdout, ReadFileSync ''a.txt'',
        ConsoleError ''Team file options cannot be combined with --interactive-stdin.'', Exit 1]"
    using conflict_fatal_before_session [of ?a exampleEnv] i(1) t(1)
    by (simp add: step_defs)
  have b: "main exampleEnv ?b
     = [IncludeFormats, Stdout, ReadFileSync ''b.txt'',
        ConsoleError ''Failed to read team file for P1 at b.txt.'', ConsoleError ''ENOENT'',
        Exit 1]"
    using conflict_fatal_before_session [of ?b exampleEnv] i(2) t(2)
    by (simp add: step_defs)
  have c: "main exampleEnv ?c
     = [IncludeFormats,
        ConsoleError (''Invalid seed '' @ [CHR 0x22] @ ''bad'' @ [CHR 0x22] @ ''.''),
        ConsoleError ''not a seed'', Exit 1]"
    using conflict_fatal_before_session [of ?c exampleEnv] i(3) t(3)
    by (simp add: step_defs)
  have d: "main exampleEnv (exampleValues\<lparr>opt_log_format := Str ''XML''\<rparr>)
     = [IncludeFormats,
        ConsoleError (''Unknown log format '' @ [CHR 0x22] @ ''XML'' @ [CHR 0x22]
                        @ ''. Supported formats: text, json.''),
        Exit 1]"
    using conflict_fatal_before_session [of "exampleValues\<lparr>opt_log_format := Str ''XML''\<rparr>" _ "''XML''"]
    by (simp add: toLowerCase_def lowerChar_def LOG_FORMATS_def)
  have e: "main exampleEnv (exampleValues\<lparr>opt_seed := Str ''  ''\<rparr>)
     = [IncludeFormats, ConsoleError ''Seed cannot be an empty string.'', Exit 1]"
    using conflict_fatal_before_session [of "exampleValues\<lparr>opt_seed := Str ''  ''\<rparr>" exampleEnv _ "''  ''"]
    by (simp add: main_defs)
  from i(1) t(1) a b c d e show ?thesis
    by blast
qed

end
